theory Spec2Isabelle
  imports Main "HOL-Library.Stream"
begin

text \<open>
  The \<open>login\<close> and \<open>endpoint\<close> commands of the multi-endpoint CF CLI
  (\<^verbatim>\<open>cf/commands/endpoint.go\<close>): the resolution of the API endpoint, the two
  authentication loops, the selection of an organization and a space, and the history of
  sessions kept per endpoint.  The commands talk to a terminal, an authenticator, two
  repositories and a configuration store; what these answer is a parameter of the model,
  and every call made on them is recorded.
\<close>

section \<open>Data model\<close>

text \<open>
  Go \<open>error\<close> values.  \<open>ErrorString s\<close> is what \<open>errors.New(s)\<close> and
  \<open>fmt.Errorf(s)\<close> build; \<open>MinimumCFAPIVersionNotMetError\<close> is the one error type
  that \<open>Login.Execute\<close> tells apart by a type assertion (it carries its rendered text).
  A Go \<open>error\<close> that may be \<open>nil\<close> is an \<open>error option\<close>.
\<close>

datatype error = ErrorString string | MinimumCFAPIVersionNotMetError string

fun Error :: "error \<Rightarrow> string" where
  "Error (ErrorString s) = s"
| "Error (MinimumCFAPIVersionNotMetError s) = s"

record organization_fields =
  org_GUID :: string
  org_Name :: string

record space_fields =
  space_GUID :: string
  space_Name :: string

text \<open>\<open>models.Organization\<close> and \<open>models.Space\<close> embed their field structs.\<close>

record Organization =
  OrganizationFields_of :: organization_fields

record Space =
  SpaceFields_of :: space_fields

datatype AuthPromptType = AuthPromptTypeText | AuthPromptTypePassword

record AuthPrompt =
  prompt_Type :: AuthPromptType
  prompt_DisplayName :: string

text \<open>
  The prompt catalog is a Go map.  It is kept as an association list whose order is the
  order in which the one \<open>range\<close> loop over it (in \<open>Login.authenticate\<close>) visits the
  entries; lookups go through \<open>map_of\<close>.  A missing key reads as the zero value.
\<close>

type_synonym prompts = "(string \<times> AuthPrompt) list"

definition zeroAuthPrompt :: AuthPrompt where
  "zeroAuthPrompt = \<lparr>prompt_Type = AuthPromptTypeText, prompt_DisplayName = ''''\<rparr>"

definition lookupPrompt :: "prompts \<Rightarrow> string \<Rightarrow> AuthPrompt" where
  "lookupPrompt ps key = (case map_of ps key of Some p \<Rightarrow> p | None \<Rightarrow> zeroAuthPrompt)"

type_synonym credentials = "string \<rightharpoonup> string"

record CFInstanceData =
  inst_AccessToken :: string
  inst_APIVersion :: string
  inst_AuthorizationEndpoint :: string
  inst_DopplerEndPoint :: string
  inst_LogCacheEndPoint :: string
  inst_OrganizationFields :: organization_fields
  inst_SpaceFields :: space_fields
  inst_RefreshToken :: string
  inst_UaaEndpoint :: string

text \<open>The persisted configuration behind \<open>coreconfig.ReadWriter\<close>: one field per getter.\<close>

record Data =
  APIEndpoint :: string
  IsSSLDisabled :: bool
  APIVersion :: string
  AuthenticationEndpoint :: string
  AccessToken :: string
  RefreshToken :: string
  DopplerEndpoint :: string
  LogCacheEndpoint :: string
  UaaEndpoint :: string
  UAAGrantType :: string
  OrganizationFields :: organization_fields
  SpaceFields :: space_fields
  InstanceData :: "CFInstanceData list"

subsection \<open>Flags\<close>

datatype flag = StringFlag string | BoolFlag bool

type_synonym FlagContext = "string \<rightharpoonup> flag"

definition String :: "FlagContext \<Rightarrow> string \<Rightarrow> string" where
  "String c name = (case c name of Some (StringFlag s) \<Rightarrow> s | _ \<Rightarrow> '''')"

definition Bool :: "FlagContext \<Rightarrow> string \<Rightarrow> bool" where
  "Bool c name = (case c name of Some (BoolFlag b) \<Rightarrow> b | _ \<Rightarrow> False)"

definition IsSet :: "FlagContext \<Rightarrow> string \<Rightarrow> bool" where
  "IsSet c name = (c name \<noteq> None)"

subsection \<open>Collaborators and the world\<close>

text \<open>
  Every call on a collaborator (terminal, authenticator, repositories, endpoint setup) is
  recorded, in order, with its arguments; the two reading calls also record what the user
  typed.
\<close>

datatype arg = IntArg int | StrArg string

datatype call =
    Say string "arg list"
  | Ask string string
  | AskForPassword string string
  | Ok
  | Warn string
  | ShowConfiguration
  | NotifyUpdateIfNeeded
  | SetAPIEndpoint string bool string
  | GetLoginPrompts
  | Authenticate credentials
  | ListOrgs nat
  | FindOrgByName string
  | ListSpaces
  | FindSpaceByName string

text \<open>
  The behaviour of the code outside these two files is a parameter: the translation
  function and the colouring of names, the configuration's \<open>ClearSession\<close> and
  \<open>IsLoggedIn\<close>, \<open>API.setAPIEndpoint\<close>, the version check, and the answers of the
  authenticator and of the repositories.
\<close>

record env =
  T :: "string \<Rightarrow> (string \<times> string) list \<Rightarrow> string"
  EntityNameColor :: "string \<Rightarrow> string"
  config_ClearSession :: "Data \<Rightarrow> Data"
  config_IsLoggedIn :: "Data \<Rightarrow> bool"
  api_setAPIEndpoint :: "string \<Rightarrow> bool \<Rightarrow> string \<Rightarrow> Data \<Rightarrow> error option \<times> Data"
  MinimumCCAPIVersionCheck :: "string \<Rightarrow> error option"
  authenticator_GetLoginPrompts :: "Data \<Rightarrow> (error + prompts) \<times> Data"
  orgRepo_ListOrgs :: "nat \<Rightarrow> Data \<Rightarrow> error + Organization list"
  orgRepo_FindByName :: "string \<Rightarrow> Data \<Rightarrow> error + Organization"
  spaceRepo_ListSpaces :: "Data \<Rightarrow> Space list \<times> error option"
  spaceRepo_FindByName :: "string \<Rightarrow> Data \<Rightarrow> error + Space"
  ui_ShowConfigurationResult :: "Data \<Rightarrow> error option"

text \<open>
  The mutable state: the configuration, what the user is going to type (one entry per
  question), what the authenticator is going to answer (one entry per call: its result
  and what it does to the configuration), and the calls made so far.
\<close>

record world =
  config :: Data
  answers :: "string stream"
  outcomes :: "(error option \<times> (Data \<Rightarrow> Data)) stream"
  calls :: "call list"

definition record_call :: "call \<Rightarrow> world \<Rightarrow> world" where
  "record_call e w = w\<lparr>calls := calls w @ [e]\<rparr>"

definition ui_Say :: "string \<Rightarrow> arg list \<Rightarrow> world \<Rightarrow> world" where
  "ui_Say s as w = record_call (Say s as) w"

definition ui_Ok :: "world \<Rightarrow> world" where
  "ui_Ok w = record_call Ok w"

definition ui_Warn :: "string \<Rightarrow> world \<Rightarrow> world" where
  "ui_Warn s w = record_call (Warn s) w"

definition ui_Ask :: "string \<Rightarrow> world \<Rightarrow> string \<times> world" where
  "ui_Ask p w =
     (let a = shd (answers w)
      in (a, record_call (Ask p a) (w\<lparr>answers := stl (answers w)\<rparr>)))"

definition ui_AskForPassword :: "string \<Rightarrow> world \<Rightarrow> string \<times> world" where
  "ui_AskForPassword p w =
     (let a = shd (answers w)
      in (a, record_call (AskForPassword p a) (w\<lparr>answers := stl (answers w)\<rparr>)))"

definition ui_ShowConfiguration :: "env \<Rightarrow> world \<Rightarrow> error option \<times> world" where
  "ui_ShowConfiguration d w =
     (ui_ShowConfigurationResult d (config w), record_call ShowConfiguration w)"

definition ui_NotifyUpdateIfNeeded :: "world \<Rightarrow> world" where
  "ui_NotifyUpdateIfNeeded w = record_call NotifyUpdateIfNeeded w"

definition Authenticate_call :: "credentials \<Rightarrow> world \<Rightarrow> error option \<times> world" where
  "Authenticate_call creds w =
     (let (err, upd) = shd (outcomes w)
      in (err, record_call (Authenticate creds)
                 (w\<lparr>outcomes := stl (outcomes w), config := upd (config w)\<rparr>)))"

definition GetLoginPromptsAndSaveUAAServerURL ::
  "env \<Rightarrow> world \<Rightarrow> (error + prompts) \<times> world" where
  "GetLoginPromptsAndSaveUAAServerURL d w =
     (let (r, cfg) = authenticator_GetLoginPrompts d (config w)
      in (r, record_call GetLoginPrompts (w\<lparr>config := cfg\<rparr>)))"

section \<open>Login.updateMultiInstances\<close>

fun appendInstances ::
  "string \<Rightarrow> CFInstanceData list \<Rightarrow> CFInstanceData list \<Rightarrow> CFInstanceData list" where
  "appendInstances ep newInstances [] = newInstances"
| "appendInstances ep newInstances (i # instances) =
     appendInstances ep
       (if inst_AuthorizationEndpoint i \<noteq> ep then newInstances @ [i] else newInstances)
       instances"

definition currentInstance :: "Data \<Rightarrow> CFInstanceData" where
  "currentInstance cfg =
     \<lparr>inst_AccessToken = AccessToken cfg,
      inst_APIVersion = APIVersion cfg,
      inst_AuthorizationEndpoint = AuthenticationEndpoint cfg,
      inst_DopplerEndPoint = DopplerEndpoint cfg,
      inst_LogCacheEndPoint = LogCacheEndpoint cfg,
      inst_OrganizationFields = OrganizationFields cfg,
      inst_SpaceFields = SpaceFields cfg,
      inst_RefreshToken = RefreshToken cfg,
      inst_UaaEndpoint = UaaEndpoint cfg\<rparr>"

definition updateMultiInstances :: "world \<Rightarrow> world" where
  "updateMultiInstances w =
     (let instances = InstanceData (config w);
          newInstances = [] @ [currentInstance (config w)];
          newInstances = appendInstances (APIEndpoint (config w)) newInstances instances
      in w\<lparr>config := (config w)\<lparr>InstanceData := newInstances\<rparr>\<rparr>)"

section \<open>Login.decideEndpoint\<close>

definition decideEndpoint :: "env \<Rightarrow> FlagContext \<Rightarrow> world \<Rightarrow> (string \<times> bool) \<times> world" where
  "decideEndpoint d c w =
     (let endpoint = String c ''a'';
          skipSSL = Bool c ''skip-ssl-validation'';
          (endpoint, skipSSL) =
             (if endpoint = ''''
              then (APIEndpoint (config w), IsSSLDisabled (config w) \<or> skipSSL)
              else (endpoint, skipSSL))
      in if endpoint = ''''
         then (let (endpoint, w) = ui_Ask (T d ''API endpoint'' []) w
               in ((endpoint, skipSSL), w))
         else ((endpoint, skipSSL),
               ui_Say (T d ''API endpoint: {{.Endpoint}}''
                         [(''Endpoint'', EntityNameColor d endpoint)]) [] w))"

section \<open>Login.promptForName\<close>

definition maxLoginTries :: nat where
  "maxLoginTries = 3"

definition maxChoices :: nat where
  "maxChoices = 50"

text \<open>
  \<open>strconv.Atoi\<close> on a 64-bit platform: an optional sign, then at least one decimal
  digit and nothing else; a value outside the range of \<open>int\<close> is an error as well.
\<close>

definition isDigit :: "char \<Rightarrow> bool" where
  "isDigit ch = (48 \<le> (of_char ch :: nat) \<and> (of_char ch :: nat) \<le> 57)"

definition digitsValue :: "string \<Rightarrow> int" where
  "digitsValue ds = foldl (\<lambda>n ch. n * 10 + (of_char ch - 48)) 0 ds"

definition Atoi :: "string \<Rightarrow> int option" where
  "Atoi s =
     (case s of
        [] \<Rightarrow> None
      | ch # rest \<Rightarrow>
          (let neg = (ch = CHR ''-'');
               ds = (if ch = CHR ''-'' \<or> ch = CHR ''+'' then rest else s)
           in if ds = [] \<or> \<not> list_all isDigit ds then None
              else (let n = (if neg then - digitsValue ds else digitsValue ds)
                    in if n < - (2 ^ 63) \<or> 2 ^ 63 - 1 < n then None else Some n)))"

text \<open>The inner loop that prints the numbered list, \<open>i\<close> being the index of the head.\<close>

fun sayNames :: "nat \<Rightarrow> string list \<Rightarrow> world \<Rightarrow> world" where
  "sayNames i [] w = w"
| "sayNames i (name # names) w =
     sayNames (Suc i) names (ui_Say ''%d. %s'' [IntArg (int i + 1), StrArg name] w)"

text \<open>
  The loop of \<open>promptForName\<close> runs for as long as the user answers with numbers out of
  range, so the function is partial: \<open>None\<close> stands for a run that never returns.
\<close>

partial_function (option) promptForName ::
  "env \<Rightarrow> string list \<Rightarrow> string \<Rightarrow> string \<Rightarrow> world \<Rightarrow> (string \<times> world) option" where
  "promptForName d names listPrompt itemPrompt w =
     (let w = ui_Say listPrompt [] w;
          w = (if length names < maxChoices then sayNames 0 names w
               else ui_Say (T d ''There are too many options to display, please type in the name.'' [])
                      [] w);
          (nameString, w) = ui_Ask itemPrompt w
      in if nameString = '''' then Some ('''', w)
         else (case Atoi nameString of
                 None \<Rightarrow> Some (nameString, w)
               | Some nameIndex \<Rightarrow>
                   if nameIndex < 1 \<or> nameIndex > int (length names)
                   then promptForName d names listPrompt itemPrompt w
                   else Some (names ! nat (nameIndex - 1), w)))"

section \<open>Organization and space targeting\<close>

definition targetOrganization :: "env \<Rightarrow> Organization \<Rightarrow> world \<Rightarrow> world" where
  "targetOrganization d org w =
     ui_Say (T d ''Targeted org {{.OrgName}}\<newline>''
               [(''OrgName'', EntityNameColor d (org_Name (OrganizationFields_of org)))]) []
       (w\<lparr>config := (config w)\<lparr>OrganizationFields := OrganizationFields_of org\<rparr>\<rparr>)"

definition promptForOrgName ::
  "env \<Rightarrow> Organization list \<Rightarrow> world \<Rightarrow> (string \<times> world) option" where
  "promptForOrgName d orgs w =
     (let orgNames = map (\<lambda>org. org_Name (OrganizationFields_of org)) orgs
      in promptForName d orgNames (T d ''Select an org (or press enter to skip):'' []) ''Org'' w)"

definition findAndTargetOrganization ::
  "env \<Rightarrow> string \<Rightarrow> world \<Rightarrow> (bool \<times> error option) \<times> world" where
  "findAndTargetOrganization d orgName w =
     (let w = record_call (FindOrgByName orgName) w
      in case orgRepo_FindByName d orgName (config w) of
           Inl err \<Rightarrow>
             ((False, Some (ErrorString (T d ''Error finding org {{.OrgName}}\<newline>{{.Err}}''
                 [(''OrgName'', EntityNameColor d orgName), (''Err'', Error err)]))), w)
         | Inr org \<Rightarrow> ((True, None), targetOrganization d org w))"

definition setOrganization ::
  "env \<Rightarrow> FlagContext \<Rightarrow> world \<Rightarrow> ((bool \<times> error option) \<times> world) option" where
  "setOrganization d c w =
     (let orgName = String c ''o''
      in if orgName = '''' then
           (let w = record_call (ListOrgs maxChoices) w
            in case orgRepo_ListOrgs d maxChoices (config w) of
                 Inl err \<Rightarrow>
                   Some ((False, Some (ErrorString (T d ''Error finding available orgs\<newline>{{.APIErr}}''
                            [(''APIErr'', Error err)]))), w)
               | Inr orgs \<Rightarrow>
                   (case orgs of
                      [] \<Rightarrow> Some ((False, None), w)
                    | [org] \<Rightarrow> Some ((True, None), targetOrganization d org w)
                    | _ \<Rightarrow>
                        (case promptForOrgName d orgs w of
                           None \<Rightarrow> None
                         | Some (orgName, w) \<Rightarrow>
                             if orgName = '''' then Some ((False, None), ui_Say '''' [] w)
                             else Some (findAndTargetOrganization d orgName w))))
         else Some (findAndTargetOrganization d orgName w))"

definition targetSpace :: "env \<Rightarrow> Space \<Rightarrow> world \<Rightarrow> world" where
  "targetSpace d space w =
     ui_Say (T d ''Targeted space {{.SpaceName}}\<newline>''
               [(''SpaceName'', EntityNameColor d (space_Name (SpaceFields_of space)))]) []
       (w\<lparr>config := (config w)\<lparr>SpaceFields := SpaceFields_of space\<rparr>\<rparr>)"

definition promptForSpaceName ::
  "env \<Rightarrow> Space list \<Rightarrow> world \<Rightarrow> (string \<times> world) option" where
  "promptForSpaceName d spaces w =
     (let spaceNames = map (\<lambda>space. space_Name (SpaceFields_of space)) spaces
      in promptForName d spaceNames (T d ''Select a space (or press enter to skip):'' []) ''Space'' w)"

text \<open>
  \<open>ListSpaces\<close> hands the spaces to the callback one by one and stops as soon as the
  callback answers false; the callback appends and answers whether there is room left.
\<close>

fun listSpacesCallback :: "Space list \<Rightarrow> Space list \<Rightarrow> Space list" where
  "listSpacesCallback availableSpaces [] = availableSpaces"
| "listSpacesCallback availableSpaces (space # rest) =
     (let availableSpaces = availableSpaces @ [space]
      in if length availableSpaces < maxChoices then listSpacesCallback availableSpaces rest
         else availableSpaces)"

definition findAndTargetSpace :: "env \<Rightarrow> string \<Rightarrow> world \<Rightarrow> error option \<times> world" where
  "findAndTargetSpace d spaceName w =
     (let w = record_call (FindSpaceByName spaceName) w
      in case spaceRepo_FindByName d spaceName (config w) of
           Inl err \<Rightarrow>
             (Some (ErrorString (T d ''Error finding space {{.SpaceName}}\<newline>{{.Err}}''
                [(''SpaceName'', EntityNameColor d spaceName), (''Err'', Error err)])), w)
         | Inr space \<Rightarrow> (None, targetSpace d space w))"

definition setSpace :: "env \<Rightarrow> FlagContext \<Rightarrow> world \<Rightarrow> (error option \<times> world) option" where
  "setSpace d c w =
     (let spaceName = String c ''s''
      in if spaceName = '''' then
           (let w = record_call ListSpaces w;
                (offered, err) = spaceRepo_ListSpaces d (config w);
                availableSpaces = listSpacesCallback [] offered
            in case err of
                 Some err \<Rightarrow>
                   Some (Some (ErrorString (T d ''Error finding available spaces\<newline>{{.Err}}''
                           [(''Err'', Error err)])), w)
               | None \<Rightarrow>
                   (case availableSpaces of
                      [] \<Rightarrow> Some (None, w)
                    | [space] \<Rightarrow> Some (None, targetSpace d space w)
                    | _ \<Rightarrow>
                        (case promptForSpaceName d availableSpaces w of
                           None \<Rightarrow> None
                         | Some (spaceName, w) \<Rightarrow>
                             if spaceName = '''' then Some (None, ui_Say '''' [] w)
                             else Some (findAndTargetSpace d spaceName w))))
         else Some (findAndTargetSpace d spaceName w))"

section \<open>Login.authenticateSSO\<close>

function authenticateSSO_loop ::
  "env \<Rightarrow> FlagContext \<Rightarrow> AuthPrompt \<Rightarrow> nat \<Rightarrow> credentials \<Rightarrow> error option \<Rightarrow> world
     \<Rightarrow> error option \<times> world" where
  "authenticateSSO_loop d c passcode i credentials err w =
     (if i < maxLoginTries then
        (let (a, w) = (if IsSet c ''sso-passcode'' \<and> i = 0
                       then (String c ''sso-passcode'', w)
                       else ui_AskForPassword (prompt_DisplayName passcode) w);
             credentials = credentials(''passcode'' \<mapsto> a);
             w = ui_Say (T d ''Authenticating...'' []) [] w;
             (err, w) = Authenticate_call credentials w
         in case err of
              None \<Rightarrow> (None, ui_Say '''' [] (ui_Ok w))
            | Some e \<Rightarrow>
                authenticateSSO_loop d c passcode (Suc i) credentials (Some e)
                  (ui_Say (Error e) [] w))
      else (err, w))"
  by pat_completeness auto
termination
  by (relation "measure (\<lambda>(d, c, passcode, i, credentials, err, w). maxLoginTries - i)") auto

definition authenticateSSO :: "env \<Rightarrow> FlagContext \<Rightarrow> world \<Rightarrow> error option \<times> world" where
  "authenticateSSO d c w =
     (case GetLoginPromptsAndSaveUAAServerURL d w of
        (Inl err, w) \<Rightarrow> (Some err, w)
      | (Inr prompts, w) \<Rightarrow>
          (let credentials = Map.empty;
               passcode = lookupPrompt prompts ''passcode'';
               passcode =
                 (if prompt_DisplayName passcode = '''' then
                    \<lparr>prompt_Type = AuthPromptTypePassword,
                     prompt_DisplayName =
                       T d ''Temporary Authentication Code ( Get one at {{.AuthenticationEndpoint}}/passcode )''
                         [(''AuthenticationEndpoint'', AuthenticationEndpoint (config w))]\<rparr>
                  else passcode);
               (err, w) = authenticateSSO_loop d c passcode 0 credentials None w
           in if err \<noteq> None then (Some (ErrorString (T d ''Unable to authenticate.'' [])), w)
              else (None, w)))"

section \<open>Login.authenticate\<close>

text \<open>
  The \<open>range\<close> loop over the catalog: secret prompts other than \<open>passcode\<close> and
  \<open>password\<close> are collected in \<open>passwordKeys\<close>, \<open>username\<close> is skipped, every other
  prompt is asked at once.
\<close>

fun collectPrompts ::
  "env \<Rightarrow> prompts \<Rightarrow> string list \<Rightarrow> credentials \<Rightarrow> world
     \<Rightarrow> string list \<times> credentials \<times> world" where
  "collectPrompts d [] passwordKeys credentials w = (passwordKeys, credentials, w)"
| "collectPrompts d ((key, prompt) # rest) passwordKeys credentials w =
     (if prompt_Type prompt = AuthPromptTypePassword then
        (if key = ''passcode'' \<or> key = ''password''
         then collectPrompts d rest passwordKeys credentials w
         else collectPrompts d rest (passwordKeys @ [key]) credentials w)
      else if key = ''username'' then collectPrompts d rest passwordKeys credentials w
      else (let (a, w) = ui_Ask (T d (prompt_DisplayName prompt) []) w
            in collectPrompts d rest passwordKeys (credentials(key \<mapsto> a)) w))"

text \<open>The loop over \<open>passwordKeys\<close> inside one attempt.\<close>

fun askPasswordKeys ::
  "env \<Rightarrow> prompts \<Rightarrow> string list \<Rightarrow> credentials \<Rightarrow> world \<Rightarrow> credentials \<times> world" where
  "askPasswordKeys d prompts [] credentials w = (credentials, w)"
| "askPasswordKeys d prompts (key # keys) credentials w =
     (let (a, w) = ui_AskForPassword (T d (prompt_DisplayName (lookupPrompt prompts key)) []) w
      in askPasswordKeys d prompts keys (credentials(key \<mapsto> a)) w)"

text \<open>
  One attempt, up to and including the call of the authenticator: the password (from the
  flag value while there is one, asked otherwise), the other secrets, the copy of the
  credentials, the call.  It returns the error, what is left of the password flag value,
  and the credentials.
\<close>

definition authenticate_attempt ::
  "env \<Rightarrow> prompts \<Rightarrow> string list \<Rightarrow> string \<Rightarrow> credentials \<Rightarrow> world
     \<Rightarrow> error option \<times> string \<times> credentials \<times> world" where
  "authenticate_attempt d prompts passwordKeys passwordFlagValue credentials w =
     (let (passwordFlagValue, credentials, w) =
            (case map_of prompts ''password'' of
               Some passPrompt \<Rightarrow>
                 (if passwordFlagValue \<noteq> ''''
                  then ('''', credentials(''password'' \<mapsto> passwordFlagValue), w)
                  else (let (a, w) = ui_AskForPassword (T d (prompt_DisplayName passPrompt) []) w
                        in (passwordFlagValue, credentials(''password'' \<mapsto> a), w)))
             | None \<Rightarrow> (passwordFlagValue, credentials, w));
          (credentials, w) = askPasswordKeys d prompts passwordKeys credentials w;
          credentialsCopy = credentials;
          w = ui_Say (T d ''Authenticating...'' []) [] w;
          (err, w) = Authenticate_call credentialsCopy w
      in (err, passwordFlagValue, credentials, w))"

function authenticate_loop ::
  "env \<Rightarrow> prompts \<Rightarrow> string list \<Rightarrow> nat \<Rightarrow> string \<Rightarrow> credentials \<Rightarrow> error option \<Rightarrow> world
     \<Rightarrow> error option \<times> world" where
  "authenticate_loop d prompts passwordKeys i passwordFlagValue credentials err w =
     (if i < maxLoginTries then
        (case authenticate_attempt d prompts passwordKeys passwordFlagValue credentials w of
           (None, passwordFlagValue, credentials, w) \<Rightarrow> (None, ui_Say '''' [] (ui_Ok w))
         | (Some e, passwordFlagValue, credentials, w) \<Rightarrow>
             authenticate_loop d prompts passwordKeys (Suc i) passwordFlagValue credentials
               (Some e) (ui_Say (Error e) [] w))
      else (err, w))"
  by pat_completeness auto
termination
  by (relation "measure (\<lambda>(d, prompts, passwordKeys, i, passwordFlagValue, credentials, err, w).
                  maxLoginTries - i)") auto

declare authenticate_loop.simps [simp del] authenticateSSO_loop.simps [simp del]

definition authenticate :: "env \<Rightarrow> FlagContext \<Rightarrow> world \<Rightarrow> error option \<times> world" where
  "authenticate d c w =
     (if UAAGrantType (config w) = ''client_credentials'' then
        (Some (ErrorString (T d
           (''Service account currently logged in. Use '' @ [CHR 0x27] @ ''cf logout'' @ [CHR 0x27]
              @ '' to log out service account and try again.'') [])), w)
      else
        (let usernameFlagValue = String c ''u'';
             passwordFlagValue = String c ''p''
         in case GetLoginPromptsAndSaveUAAServerURL d w of
              (Inl err, w) \<Rightarrow> (Some err, w)
            | (Inr prompts, w) \<Rightarrow>
                (let passwordKeys = [];
                     credentials = Map.empty;
                     (credentials, w) =
                        (case map_of prompts ''username'' of
                           Some value \<Rightarrow>
                             (if prompt_Type (lookupPrompt prompts ''username'') = AuthPromptTypeText
                                 \<and> usernameFlagValue \<noteq> ''''
                              then (credentials(''username'' \<mapsto> usernameFlagValue), w)
                              else (let (a, w) = ui_Ask (T d (prompt_DisplayName value) []) w
                                    in (credentials(''username'' \<mapsto> a), w)))
                         | None \<Rightarrow> (credentials, w));
                     (passwordKeys, credentials, w) =
                        collectPrompts d prompts passwordKeys credentials w;
                     (err, w) =
                        authenticate_loop d prompts passwordKeys 0 passwordFlagValue credentials None w
                 in if err \<noteq> None then (Some (ErrorString (T d ''Unable to authenticate.'' [])), w)
                    else (None, w))))"

section \<open>Login.Execute\<close>

definition setAPIEndpoint :: "env \<Rightarrow> string \<Rightarrow> bool \<Rightarrow> string \<Rightarrow> world \<Rightarrow> error option \<times> world" where
  "setAPIEndpoint d endpoint skipSSL cmdName w =
     (let w = record_call (SetAPIEndpoint endpoint skipSSL cmdName) w;
          (err, cfg) = api_setAPIEndpoint d endpoint skipSSL cmdName (config w)
      in (err, w\<lparr>config := cfg\<rparr>))"

text \<open>The deferred function of \<open>Execute\<close>; the result of \<open>ShowConfiguration\<close> is dropped.\<close>

definition Execute_deferred :: "env \<Rightarrow> world \<Rightarrow> world" where
  "Execute_deferred d w = snd (ui_ShowConfiguration d (ui_Say '''' [] w))"

text \<open>What follows the authentication: organization, space, notification, session history.\<close>

definition Execute_targeting ::
  "env \<Rightarrow> FlagContext \<Rightarrow> world \<Rightarrow> (error option \<times> world) option" where
  "Execute_targeting d c w =
     (case setOrganization d c w of
        None \<Rightarrow> None
      | Some ((orgIsSet, err), w) \<Rightarrow>
          (case err of
             Some e \<Rightarrow> Some (Some e, w)
           | None \<Rightarrow>
               (case (if orgIsSet then setSpace d c w else Some (None, w)) of
                  None \<Rightarrow> None
                | Some (Some e, w) \<Rightarrow> Some (Some e, w)
                | Some (None, w) \<Rightarrow>
                    Some (None, updateMultiInstances (ui_NotifyUpdateIfNeeded w)))))"

text \<open>The \<open>switch\<close> on the authentication mode and everything after it.\<close>

definition Execute_switch ::
  "env \<Rightarrow> FlagContext \<Rightarrow> world \<Rightarrow> (error option \<times> world) option" where
  "Execute_switch d c w =
     (if Bool c ''sso'' \<and> IsSet c ''sso-passcode'' then
        Some (Some (ErrorString
                (T d ''Incorrect usage: --sso-passcode flag cannot be used with --sso'' [])), w)
      else
        (case (if Bool c ''sso'' \<or> IsSet c ''sso-passcode''
               then authenticateSSO d c w else authenticate d c w) of
           (Some e, w) \<Rightarrow> Some (Some e, w)
         | (None, w) \<Rightarrow> Execute_targeting d c w))"

definition Execute :: "env \<Rightarrow> FlagContext \<Rightarrow> world \<Rightarrow> (error option \<times> world) option" where
  "Execute d c w =
     (let w = w\<lparr>config := config_ClearSession d (config w)\<rparr>;
          ((endpoint, skipSSL), w) = decideEndpoint d c w
      in case setAPIEndpoint d endpoint skipSSL ''login'' w of
           (Some e, w) \<Rightarrow> Some (Some e, w)
         | (None, w) \<Rightarrow>
             (let (err, w) =
                    (case MinimumCCAPIVersionCheck d (APIVersion (config w)) of
                       None \<Rightarrow> (None, w)
                     | Some (MinimumCFAPIVersionNotMetError m) \<Rightarrow>
                         (None, ui_Warn ''Your API version is no longer supported. Upgrade to a newer version of the API.'' w)
                     | Some e \<Rightarrow> (Some e, w))
              in case err of
                   Some e \<Rightarrow> Some (Some e, w)
                 | None \<Rightarrow>
                     (case Execute_switch d c w of
                        None \<Rightarrow> None
                      | Some (r, w) \<Rightarrow> Some (r, Execute_deferred d w))))"

section \<open>Endpoint.Execute\<close>

text \<open>\<open>strings.Contains\<close>: some suffix of \<open>s\<close> starts with \<open>substr\<close>.\<close>

fun Contains :: "string \<Rightarrow> string \<Rightarrow> bool" where
  "Contains [] substr = (substr = [])"
| "Contains (ch # s) substr = (take (length substr) (ch # s) = substr \<or> Contains s substr)"

fun findInstance :: "string \<Rightarrow> CFInstanceData list \<Rightarrow> CFInstanceData option" where
  "findInstance apiEndpointPattern [] = None"
| "findInstance apiEndpointPattern (i # instances) =
     (if Contains (inst_AuthorizationEndpoint i) apiEndpointPattern then Some i
      else findInstance apiEndpointPattern instances)"

definition Endpoint_Execute :: "env \<Rightarrow> FlagContext \<Rightarrow> world \<Rightarrow> error option \<times> world" where
  "Endpoint_Execute d c w =
     (let apiEndpointPattern = String c ''a''
      in case findInstance apiEndpointPattern (InstanceData (config w)) of
           Some i \<Rightarrow>
             (None, ui_Say ''Found existed endpoint %s'' [StrArg (inst_AuthorizationEndpoint i)] w)
         | None \<Rightarrow>
             (case ui_ShowConfiguration d w of
                (Some err, w) \<Rightarrow> (Some err, w)
              | (None, w) \<Rightarrow>
                  (let w = ui_NotifyUpdateIfNeeded w
                   in if \<not> config_IsLoggedIn d (config w) then (Some (ErrorString ''''), w)
                      else (None, w))))"

section \<open>Observations on the calls made\<close>

text \<open>The calls that go to the authenticator.\<close>

fun isAuthenticatorCall :: "call \<Rightarrow> bool" where
  "isAuthenticatorCall GetLoginPrompts = True"
| "isAuthenticatorCall (Authenticate credentials) = True"
| "isAuthenticatorCall e = False"

text \<open>
  An answer that sends \<open>promptForName\<close> round its loop again: a number outside
  \<open>1 .. length names\<close>.
\<close>

definition reprompts :: "string list \<Rightarrow> string \<Rightarrow> bool" where
  "reprompts names s =
     (case Atoi s of None \<Rightarrow> False | Some i \<Rightarrow> i < 1 \<or> int (length names) < i)"

text \<open>What \<open>promptForName\<close> returns for an answer that ends the loop.\<close>

definition chosen :: "string list \<Rightarrow> string \<Rightarrow> string" where
  "chosen names s = (case Atoi s of None \<Rightarrow> s | Some i \<Rightarrow> names ! nat (i - 1))"

text \<open>The calls of one round of the loop before the question, and of a run of rounds.\<close>

definition menuCalls :: "env \<Rightarrow> string list \<Rightarrow> string \<Rightarrow> call list" where
  "menuCalls d names listPrompt =
     Say listPrompt [] #
       (if length names < maxChoices
        then map (\<lambda>(i, name). Say ''%d. %s'' [IntArg (int i + 1), StrArg name]) (enumerate 0 names)
        else [Say (T d ''There are too many options to display, please type in the name.'' []) []])"

definition promptCalls :: "env \<Rightarrow> string list \<Rightarrow> string \<Rightarrow> string \<Rightarrow> string list \<Rightarrow> call list" where
  "promptCalls d names listPrompt itemPrompt as =
     concat (map (\<lambda>a. menuCalls d names listPrompt @ [Ask itemPrompt a]) as)"

fun isAsk :: "call \<Rightarrow> bool" where
  "isAsk (Ask p a) = True"
| "isAsk e = False"

fun isMenuLine :: "call \<Rightarrow> bool" where
  "isMenuLine (Say f [IntArg n, StrArg name]) = True"
| "isMenuLine e = False"

text \<open>
  The calls of \<open>Authenticate\<close> among the calls made, and the attempt at which the
  authenticator first succeeds, counted from 1.
\<close>

fun isAuthenticate :: "call \<Rightarrow> bool" where
  "isAuthenticate (Authenticate credentials) = True"
| "isAuthenticate e = False"

definition authenticateCalls :: "call list \<Rightarrow> nat" where
  "authenticateCalls cs = length (filter isAuthenticate cs)"

definition firstSuccess :: "(error option \<times> (Data \<Rightarrow> Data)) stream \<Rightarrow> nat \<Rightarrow> bool" where
  "firstSuccess os k =
     (0 < k \<and> fst (os !! (k - 1)) = None \<and> (\<forall>j<k - 1. fst (os !! j) \<noteq> None))"

text \<open>The number of attempts a loop with \<open>n\<close> tries left makes on the outcomes \<open>os\<close>.\<close>

fun attempts :: "nat \<Rightarrow> (error option \<times> (Data \<Rightarrow> Data)) stream \<Rightarrow> nat" where
  "attempts 0 os = 0"
| "attempts (Suc n) os = (if fst (shd os) = None then 1 else Suc (attempts n (stl os)))"

text \<open>
  The questions of one attempt: the one for the password, when there is one to ask, and
  those for the other secrets; and the credentials the latter leave.
\<close>

fun secretAsks :: "env \<Rightarrow> prompts \<Rightarrow> string list \<Rightarrow> string stream \<Rightarrow> call list" where
  "secretAsks d ps [] as = []"
| "secretAsks d ps (key # keys) as =
     AskForPassword (T d (prompt_DisplayName (lookupPrompt ps key)) []) (shd as)
       # secretAsks d ps keys (stl as)"

definition passwordAsk :: "env \<Rightarrow> prompts \<Rightarrow> string \<Rightarrow> string stream \<Rightarrow> call list" where
  "passwordAsk d ps passwordFlagValue as =
     (case map_of ps ''password'' of
        Some passPrompt \<Rightarrow>
          if passwordFlagValue \<noteq> '''' then []
          else [AskForPassword (T d (prompt_DisplayName passPrompt) []) (shd as)]
      | None \<Rightarrow> [])"

fun askedCredentials :: "string list \<Rightarrow> credentials \<Rightarrow> string stream \<Rightarrow> credentials" where
  "askedCredentials [] cr as = cr"
| "askedCredentials (key # keys) cr as = askedCredentials keys (cr(key \<mapsto> shd as)) (stl as)"

text \<open>The secret prompts that are asked again at every attempt, in the order of the catalog.\<close>

definition otherSecretKeys :: "prompts \<Rightarrow> string list" where
  "otherSecretKeys ps =
     map fst (filter (\<lambda>(key, prompt). prompt_Type prompt = AuthPromptTypePassword
                        \<and> key \<noteq> ''passcode'' \<and> key \<noteq> ''password'') ps)"

text \<open>The passcode of round \<open>i\<close> of the SSO loop: the flag value in round 0, asked otherwise.\<close>

definition ssoPasscode :: "FlagContext \<Rightarrow> AuthPrompt \<Rightarrow> nat \<Rightarrow> world \<Rightarrow> string \<times> world" where
  "ssoPasscode c p i w =
     (if IsSet c ''sso-passcode'' \<and> i = 0 then (String c ''sso-passcode'', w)
      else ui_AskForPassword (prompt_DisplayName p) w)"

text \<open>The calls that precede the loop of the password flow.\<close>

fun isStatic :: "call \<Rightarrow> bool" where
  "isStatic GetLoginPrompts = True"
| "isStatic (Ask p a) = True"
| "isStatic e = False"

text \<open>
  The attempts in a sequence of calls: for every call of \<open>Authenticate\<close>, the calls since
  the one before it and the credentials it was given; and the secrets asked for in a
  sequence of calls, each with the answer.
\<close>

fun splitAttempts :: "call list \<Rightarrow> call list \<Rightarrow> (call list \<times> credentials) list" where
  "splitAttempts acc [] = []"
| "splitAttempts acc (Authenticate credentials # cs) = (acc, credentials) # splitAttempts [] cs"
| "splitAttempts acc (e # cs) = splitAttempts (acc @ [e]) cs"

definition attemptsOf :: "call list \<Rightarrow> (call list \<times> credentials) list" where
  "attemptsOf cs = splitAttempts [] cs"

fun secretsAsked :: "call list \<Rightarrow> (string \<times> string) list" where
  "secretsAsked [] = []"
| "secretsAsked (AskForPassword p a # cs) = (p, a) # secretsAsked cs"
| "secretsAsked (e # cs) = secretsAsked cs"

text \<open>The labels of the other secret prompts, in the order in which they are asked.\<close>

definition otherLabels :: "env \<Rightarrow> prompts \<Rightarrow> string list" where
  "otherLabels d ps =
     map (\<lambda>key. T d (prompt_DisplayName (lookupPrompt ps key)) []) (otherSecretKeys ps)"

text \<open>
  An attempt that asks for the password first, uses the answer as the \<open>password\<close>
  credential, and then asks for the other secrets.
\<close>

definition passwordFirst :: "env \<Rightarrow> prompts \<Rightarrow> AuthPrompt \<Rightarrow> call list \<times> credentials \<Rightarrow> bool" where
  "passwordFirst d ps passPrompt x =
     (case secretsAsked (fst x) of
        [] \<Rightarrow> False
      | (p, a) # rest \<Rightarrow>
          p = T d (prompt_DisplayName passPrompt) [] \<and> snd x ''password'' = Some a
          \<and> map fst rest = otherLabels d ps)"

section \<open>Concrete inputs\<close>

text \<open>
  A plain environment: texts are shown as they are, the endpoint can be set, the version
  is supported, the catalog is empty, there are no organizations and no spaces.
\<close>

definition env0 :: env where
  "env0 =
     \<lparr>T = (\<lambda>s args. s),
      EntityNameColor = (\<lambda>s. s),
      config_ClearSession = (\<lambda>cfg. cfg\<lparr>AccessToken := '''', RefreshToken := ''''\<rparr>),
      config_IsLoggedIn = (\<lambda>cfg. AccessToken cfg \<noteq> ''''),
      api_setAPIEndpoint = (\<lambda>endpoint skipSSL cmdName cfg.
         (None, cfg\<lparr>APIEndpoint := endpoint, IsSSLDisabled := skipSSL\<rparr>)),
      MinimumCCAPIVersionCheck = (\<lambda>v. None),
      authenticator_GetLoginPrompts = (\<lambda>cfg. (Inr [], cfg)),
      orgRepo_ListOrgs = (\<lambda>n cfg. Inr []),
      orgRepo_FindByName = (\<lambda>name cfg. Inl (ErrorString ''not found'')),
      spaceRepo_ListSpaces = (\<lambda>cfg. ([], None)),
      spaceRepo_FindByName = (\<lambda>name cfg. Inl (ErrorString ''not found'')),
      ui_ShowConfigurationResult = (\<lambda>cfg. None)\<rparr>"

definition noOrg :: organization_fields where
  "noOrg = \<lparr>org_GUID = '''', org_Name = ''''\<rparr>"

definition noSpace :: space_fields where
  "noSpace = \<lparr>space_GUID = '''', space_Name = ''''\<rparr>"

text \<open>
  A configuration as a login leaves it: the API endpoint and the authentication endpoint
  are two different URLs, and the persisted setting skips the SSL validation.
\<close>

definition config0 :: Data where
  "config0 =
     \<lparr>APIEndpoint = ''https://api.example.com'',
      IsSSLDisabled = True,
      APIVersion = ''2.100.0'',
      AuthenticationEndpoint = ''https://login.example.com'',
      AccessToken = ''token'',
      RefreshToken = ''refresh'',
      DopplerEndpoint = '''',
      LogCacheEndpoint = '''',
      UaaEndpoint = ''https://uaa.example.com'',
      UAAGrantType = '''',
      OrganizationFields = noOrg,
      SpaceFields = noSpace,
      InstanceData = []\<rparr>"

text \<open>The user answers every question with an empty line; the authenticator accepts.\<close>

definition world0 :: world where
  "world0 =
     \<lparr>config = config0, answers = sconst '''', outcomes = sconst (None, \<lambda>cfg. cfg), calls = []\<rparr>"

text \<open>
  Two stored sessions: one for the authentication endpoint of \<open>config0\<close>, with an older
  token, and one for another endpoint.
\<close>

definition instanceA :: CFInstanceData where
  "instanceA = (currentInstance config0)\<lparr>inst_AccessToken := ''old token''\<rparr>"

definition instanceB :: CFInstanceData where
  "instanceB = (currentInstance config0)\<lparr>inst_AuthorizationEndpoint := ''https://login.other.org''\<rparr>"

definition world1 :: world where
  "world1 = world0\<lparr>config := config0\<lparr>InstanceData := [instanceA, instanceB]\<rparr>\<rparr>"

text \<open>Flag contexts.\<close>

definition flags_a :: FlagContext where
  "flags_a = [''a'' \<mapsto> StringFlag ''https://api.example.com'']"

text \<open>
  A terminal that cannot show the configuration, a configuration that is not logged in,
  and an endpoint that cannot be set.
\<close>

definition envShowFails :: env where
  "envShowFails =
     env0\<lparr>ui_ShowConfigurationResult := (\<lambda>cfg. Some (ErrorString ''cannot write to the terminal''))\<rparr>"

definition worldOut :: world where
  "worldOut = world0\<lparr>config := config0\<lparr>AccessToken := ''''\<rparr>\<rparr>"

definition envUnreachable :: env where
  "envUnreachable = env0\<lparr>api_setAPIEndpoint := (\<lambda>endpoint skipSSL cmdName cfg.
      (Some (ErrorString ''endpoint unreachable''), cfg\<lparr>APIEndpoint := ''''\<rparr>))\<rparr>"

definition flags_sso_both :: FlagContext where
  "flags_sso_both = [''sso'' \<mapsto> BoolFlag True, ''sso-passcode'' \<mapsto> StringFlag ''123456'']"

definition flags_login :: FlagContext where
  "flags_login = [''a'' \<mapsto> StringFlag ''login.example'']"

text \<open>Two organizations, and an environment whose repository lists the given ones.\<close>

definition orgA :: Organization where
  "orgA = \<lparr>OrganizationFields_of = \<lparr>org_GUID = ''guid-a'', org_Name = ''org-a''\<rparr>\<rparr>"

definition orgB :: Organization where
  "orgB = \<lparr>OrganizationFields_of = \<lparr>org_GUID = ''guid-b'', org_Name = ''org-b''\<rparr>\<rparr>"

definition envOrgs :: "Organization list \<Rightarrow> env" where
  "envOrgs orgs = env0\<lparr>orgRepo_ListOrgs := (\<lambda>n cfg. Inr orgs),
      orgRepo_FindByName := (\<lambda>name cfg.
         if name = ''org-a'' then Inr orgA else if name = ''org-b'' then Inr orgB
         else Inl (ErrorString ''not found''))\<rparr>"

definition worldPick :: world where
  "worldPick = world0\<lparr>answers := ''0'' ## ''7'' ## ''2'' ## sconst ''''\<rparr>"

definition worldName :: world where
  "worldName = world0\<lparr>answers := ''org-z'' ## sconst ''''\<rparr>"

text \<open>Two spaces, and an environment whose repository lists them.\<close>

definition spaceA :: Space where
  "spaceA = \<lparr>SpaceFields_of = \<lparr>space_GUID = ''guid-sa'', space_Name = ''space-a''\<rparr>\<rparr>"

definition spaceB :: Space where
  "spaceB = \<lparr>SpaceFields_of = \<lparr>space_GUID = ''guid-sb'', space_Name = ''space-b''\<rparr>\<rparr>"

definition envSpaces :: env where
  "envSpaces = env0\<lparr>spaceRepo_ListSpaces := (\<lambda>cfg. ([spaceA, spaceB], None)),
      spaceRepo_FindByName := (\<lambda>name cfg.
         if name = ''space-a'' then Inr spaceA else if name = ''space-b'' then Inr spaceB
         else Inl (ErrorString ''not found''))\<rparr>"

text \<open>
  A catalog with a user name, a second secret and a password; an authenticator that
  rejects the first attempt, and one that rejects them all.
\<close>

definition promptsMFA :: prompts where
  "promptsMFA =
     [(''username'', \<lparr>prompt_Type = AuthPromptTypeText, prompt_DisplayName = ''Email''\<rparr>),
      (''mfa_code'', \<lparr>prompt_Type = AuthPromptTypePassword, prompt_DisplayName = ''MFA Code''\<rparr>),
      (''password'', \<lparr>prompt_Type = AuthPromptTypePassword, prompt_DisplayName = ''Password''\<rparr>)]"

definition envPrompts :: env where
  "envPrompts = env0\<lparr>authenticator_GetLoginPrompts := (\<lambda>cfg. (Inr promptsMFA, cfg))\<rparr>"

definition worldRetry :: world where
  "worldRetry = world0
     \<lparr>answers := ''user@example.com'' ## ''111111'' ## ''typed password'' ## ''222222'' ## sconst '''',
      outcomes := (Some (ErrorString ''Credentials were rejected''), \<lambda>cfg. cfg)
                    ## sconst (None, \<lambda>cfg. cfg)\<rparr>"

definition worldRejected :: world where
  "worldRejected = world0\<lparr>outcomes := sconst (Some (ErrorString ''Credentials were rejected''), \<lambda>cfg. cfg)\<rparr>"

definition flags_p :: FlagContext where
  "flags_p = [''p'' \<mapsto> StringFlag ''flag password'']"

section \<open>The session history\<close>

lemma appendInstances_filter:
  "appendInstances ep acc xs = acc @ filter (\<lambda>i. inst_AuthorizationEndpoint i \<noteq> ep) xs"
  by (induction xs arbitrary: acc) auto

text \<open>
  What \<open>updateMultiInstances\<close> stores: the current session, then the old entries whose
  \<open>AuthorizationEndpoint\<close> differs from the \<^emph>\<open>API endpoint\<close> of the configuration.
  The key of the new entry is the \<^emph>\<open>authentication endpoint\<close>, another field.
\<close>

lemma updateMultiInstances_InstanceData:
  "InstanceData (config (updateMultiInstances w)) =
     currentInstance (config w) #
       filter (\<lambda>i. inst_AuthorizationEndpoint i \<noteq> APIEndpoint (config w))
         (InstanceData (config w))"
  by (simp add: updateMultiInstances_def Let_def appendInstances_filter)

lemma updateMultiInstances_same_endpoints:
  assumes "APIEndpoint (config w) = AuthenticationEndpoint (config w)"
  shows "InstanceData (config (updateMultiInstances w)) =
     currentInstance (config w) #
       filter (\<lambda>i. inst_AuthorizationEndpoint i
                     \<noteq> inst_AuthorizationEndpoint (currentInstance (config w)))
         (InstanceData (config w))"
  using assms by (simp add: updateMultiInstances_InstanceData currentInstance_def)

text \<open>
  Two merges from the empty history leave one entry exactly when the API endpoint and the
  authentication endpoint of the configuration are the same URL.
\<close>

lemma updateMultiInstances_twice_length:
  assumes "InstanceData (config w) = []"
  shows "length (InstanceData (config (updateMultiInstances (updateMultiInstances w)))) =
     (if APIEndpoint (config w) = AuthenticationEndpoint (config w) then 1 else 2)"
  using assms by (simp add: updateMultiInstances_def Let_def currentInstance_def)

text \<open>
  C1.  Two merges for the same endpoint, starting from the empty history, should leave one
  entry.  With an API endpoint that is not the authentication endpoint the code leaves
  two: the entry of the first merge is not recognised by the second.
\<close>

theorem updateMultiInstances_twice_keeps_duplicate:
  "InstanceData (config world0) = []
   \<and> InstanceData (config (updateMultiInstances (updateMultiInstances world0)))
       = [currentInstance config0, currentInstance config0]
   \<and> length (InstanceData (config (updateMultiInstances (updateMultiInstances world0)))) = 2"
  by (simp add: updateMultiInstances_def world0_def config0_def currentInstance_def)

text \<open>
  C2.  The history after a merge should be the new session followed by the old entries
  with another identity key.  On the history \<open>[A, B]\<close>, where \<open>A\<close> has the key of the new
  session and \<open>B\<close> another one, the code returns the new session followed by \<open>A\<close> and \<open>B\<close>.
\<close>

theorem updateMultiInstances_keeps_same_key_entry:
  "inst_AuthorizationEndpoint instanceA = inst_AuthorizationEndpoint (currentInstance (config world1))
   \<and> inst_AuthorizationEndpoint instanceB \<noteq> inst_AuthorizationEndpoint (currentInstance (config world1))
   \<and> InstanceData (config world1) = [instanceA, instanceB]
   \<and> InstanceData (config (updateMultiInstances world1))
       = [currentInstance (config world1), instanceA, instanceB]"
  by (simp add: updateMultiInstances_def world1_def world0_def config0_def currentInstance_def
        instanceA_def instanceB_def)

section \<open>The endpoint and the SSL flag\<close>

text \<open>
  With an explicit endpoint, a persisted setting that skips the validation and no
  \<open>--skip-ssl-validation\<close> flag, the flag returned is false: it is not the disjunction of
  the persisted setting and the explicit flag.
\<close>

theorem decideEndpoint_skipSSL_not_or:
  "snd (fst (decideEndpoint env0 flags_a world0))
     \<noteq> (IsSSLDisabled (config world0) \<or> Bool flags_a ''skip-ssl-validation'')"
  by (simp add: decideEndpoint_def Let_def flags_a_def String_def Bool_def world0_def config0_def)

text \<open>
  C3 (amended).  The persisted setting counts only when the persisted endpoint is used:
  without an explicit endpoint the effective flag is the persisted setting or the
  explicit flag; with an explicit endpoint it is the explicit flag alone.
\<close>

theorem decideEndpoint_skipSSL:
  "snd (fst (decideEndpoint d c w)) =
     (if String c ''a'' = '''' then IsSSLDisabled (config w) \<or> Bool c ''skip-ssl-validation''
      else Bool c ''skip-ssl-validation'')"
  by (simp add: decideEndpoint_def Let_def split: prod.splits)

theorem decideEndpoint_skipSSL_witness:
  "snd (fst (decideEndpoint env0 Map.empty world0)) = True
   \<and> snd (fst (decideEndpoint env0 flags_a world0)) = False"
  using decideEndpoint_skipSSL [of env0 Map.empty world0]
        decideEndpoint_skipSSL [of env0 flags_a world0]
  by (simp add: flags_a_def String_def Bool_def world0_def config0_def)

section \<open>The terminal\<close>

lemmas ui_defs = record_call_def ui_Say_def ui_Ok_def ui_Warn_def ui_Ask_def ui_AskForPassword_def
  ui_ShowConfiguration_def ui_NotifyUpdateIfNeeded_def

section \<open>The endpoint command\<close>

lemma take_eq_iff_prefix: "take (length sub) s = sub \<longleftrightarrow> (\<exists>suf. s = sub @ suf)"
  by (metis append_eq_conv_conj append_take_drop_id)

lemma Contains_iff: "Contains s sub \<longleftrightarrow> (\<exists>pre suf. s = pre @ sub @ suf)"
proof (induction s)
  case Nil
  then show ?case by auto
next
  case (Cons ch s)
  have "(\<exists>pre suf. ch # s = pre @ sub @ suf) \<longleftrightarrow>
        (\<exists>suf. ch # s = sub @ suf) \<or> (\<exists>pre suf. s = pre @ sub @ suf)"
  proof
    assume "\<exists>pre suf. ch # s = pre @ sub @ suf"
    then obtain pre suf where e: "ch # s = pre @ sub @ suf" by blast
    show "(\<exists>suf. ch # s = sub @ suf) \<or> (\<exists>pre suf. s = pre @ sub @ suf)"
    proof (cases pre)
      case Nil
      with e show ?thesis by auto
    next
      case (Cons p pre')
      with e have "s = pre' @ sub @ suf" by simp
      then show ?thesis by blast
    qed
  next
    assume "(\<exists>suf. ch # s = sub @ suf) \<or> (\<exists>pre suf. s = pre @ sub @ suf)"
    then show "\<exists>pre suf. ch # s = pre @ sub @ suf"
    proof
      assume "\<exists>suf. ch # s = sub @ suf"
      then obtain suf where "ch # s = [] @ sub @ suf" by auto
      then show ?thesis by blast
    next
      assume "\<exists>pre suf. s = pre @ sub @ suf"
      then obtain pre suf where "ch # s = (ch # pre) @ sub @ suf" by auto
      then show ?thesis by blast
    qed
  qed
  with Cons show ?case
    by (simp only: Contains.simps take_eq_iff_prefix)
qed

lemma findInstance_None:
  "findInstance p xs = None \<longleftrightarrow> (\<forall>i\<in>set xs. \<not> Contains (inst_AuthorizationEndpoint i) p)"
  by (induction xs) auto

lemma findInstance_Some:
  "findInstance p xs = Some i \<Longrightarrow> i \<in> set xs \<and> Contains (inst_AuthorizationEndpoint i) p"
  by (induction xs) (auto split: if_splits)

text \<open>
  When the configuration cannot be shown, \<open>Execute\<close> hands that error on: it is not the
  error with the empty message.
\<close>

theorem Endpoint_Execute_show_fails:
  "InstanceData (config worldOut) = []
   \<and> \<not> config_IsLoggedIn envShowFails (config worldOut)
   \<and> fst (Endpoint_Execute envShowFails flags_a worldOut) = Some (ErrorString ''cannot write to the terminal'')
   \<and> Error (ErrorString ''cannot write to the terminal'') \<noteq> ''''"
  by (simp add: Endpoint_Execute_def worldOut_def world0_def config0_def envShowFails_def env0_def
       ui_defs Let_def)

text \<open>
  C10 (amended).  When the authorization endpoint of some stored session contains the
  pattern, \<open>Execute\<close> returns \<open>nil\<close> and its only call is the notice about the endpoint
  found: the configuration is not shown.  When no stored session matches, the
  configuration is shown.  If showing it fails, \<open>Execute\<close> returns that error and makes no
  further call.  If it succeeds, the update notice follows, and \<open>Execute\<close> returns an
  error whose message is empty when the configuration is not logged in, and \<open>nil\<close> when
  it is.
\<close>

theorem Endpoint_Execute_result:
  "((\<exists>i\<in>set (InstanceData (config w)).
        \<exists>pre suf. inst_AuthorizationEndpoint i = pre @ String c ''a'' @ suf) \<longrightarrow>
      fst (Endpoint_Execute d c w) = None
      \<and> (\<exists>i\<in>set (InstanceData (config w)).
            calls (snd (Endpoint_Execute d c w)) =
              calls w @ [Say ''Found existed endpoint %s'' [StrArg (inst_AuthorizationEndpoint i)]]))
   \<and> ((\<forall>i\<in>set (InstanceData (config w)).
          \<not> (\<exists>pre suf. inst_AuthorizationEndpoint i = pre @ String c ''a'' @ suf)) \<longrightarrow>
        (\<forall>err. ui_ShowConfigurationResult d (config w) = Some err \<longrightarrow>
           fst (Endpoint_Execute d c w) = Some err
           \<and> calls (snd (Endpoint_Execute d c w)) = calls w @ [ShowConfiguration])
      \<and> (ui_ShowConfigurationResult d (config w) = None \<longrightarrow>
           calls (snd (Endpoint_Execute d c w)) = calls w @ [ShowConfiguration, NotifyUpdateIfNeeded]
           \<and> (\<not> config_IsLoggedIn d (config w) \<longrightarrow>
                (\<exists>e. fst (Endpoint_Execute d c w) = Some e \<and> e = ErrorString '''' \<and> Error e = ''''))
           \<and> (config_IsLoggedIn d (config w) \<longrightarrow> fst (Endpoint_Execute d c w) = None)))"
proof (intro conjI impI allI)
  assume m: "\<exists>i\<in>set (InstanceData (config w)).
        \<exists>pre suf. inst_AuthorizationEndpoint i = pre @ String c ''a'' @ suf"
  then have "findInstance (String c ''a'') (InstanceData (config w)) \<noteq> None"
    by (simp add: findInstance_None Contains_iff)
  then obtain i where i: "findInstance (String c ''a'') (InstanceData (config w)) = Some i"
    by blast
  then show "fst (Endpoint_Execute d c w) = None"
    by (simp add: Endpoint_Execute_def)
  from i findInstance_Some [OF i]
  show "\<exists>i\<in>set (InstanceData (config w)).
            calls (snd (Endpoint_Execute d c w)) =
              calls w @ [Say ''Found existed endpoint %s'' [StrArg (inst_AuthorizationEndpoint i)]]"
    by (auto simp: Endpoint_Execute_def ui_defs intro!: bexI [of _ i])
next
  fix err
  assume "\<forall>i\<in>set (InstanceData (config w)).
          \<not> (\<exists>pre suf. inst_AuthorizationEndpoint i = pre @ String c ''a'' @ suf)"
  then have n: "findInstance (String c ''a'') (InstanceData (config w)) = None"
    by (simp add: findInstance_None Contains_iff)
  assume s: "ui_ShowConfigurationResult d (config w) = Some err"
  from n s show "fst (Endpoint_Execute d c w) = Some err"
    by (simp add: Endpoint_Execute_def ui_defs)
  from n s show "calls (snd (Endpoint_Execute d c w)) = calls w @ [ShowConfiguration]"
    by (simp add: Endpoint_Execute_def ui_defs)
next
  assume "\<forall>i\<in>set (InstanceData (config w)).
          \<not> (\<exists>pre suf. inst_AuthorizationEndpoint i = pre @ String c ''a'' @ suf)"
  then have n: "findInstance (String c ''a'') (InstanceData (config w)) = None"
    by (simp add: findInstance_None Contains_iff)
  assume s: "ui_ShowConfigurationResult d (config w) = None"
  from n s show "calls (snd (Endpoint_Execute d c w)) = calls w @ [ShowConfiguration, NotifyUpdateIfNeeded]"
    by (simp add: Endpoint_Execute_def ui_defs Let_def)
  {
    assume "\<not> config_IsLoggedIn d (config w)"
    with n s show "\<exists>e. fst (Endpoint_Execute d c w) = Some e \<and> e = ErrorString '''' \<and> Error e = ''''"
      by (simp add: Endpoint_Execute_def ui_defs)
  }
  {
    assume "config_IsLoggedIn d (config w)"
    with n s show "fst (Endpoint_Execute d c w) = None"
      by (simp add: Endpoint_Execute_def ui_defs)
  }
qed

theorem Endpoint_Execute_result_witness:
  "(\<exists>pre suf. inst_AuthorizationEndpoint instanceA = pre @ String flags_login ''a'' @ suf)
   \<and> fst (Endpoint_Execute env0 flags_login world1) = None
   \<and> calls (snd (Endpoint_Execute env0 flags_login world1))
       = [Say ''Found existed endpoint %s'' [StrArg ''https://login.example.com'']]
   \<and> InstanceData (config worldOut) = []
   \<and> fst (Endpoint_Execute env0 flags_a worldOut) = Some (ErrorString '''')
   \<and> calls (snd (Endpoint_Execute env0 flags_a worldOut)) = [ShowConfiguration, NotifyUpdateIfNeeded]
   \<and> fst (Endpoint_Execute env0 flags_a world0) = None
   \<and> ui_ShowConfigurationResult envShowFails (config world0)
       = Some (ErrorString ''cannot write to the terminal'')
   \<and> fst (Endpoint_Execute envShowFails flags_a world0)
       = Some (ErrorString ''cannot write to the terminal'')
   \<and> calls (snd (Endpoint_Execute envShowFails flags_a world0)) = [ShowConfiguration]"
proof -
  have "Contains (inst_AuthorizationEndpoint instanceA) (String flags_login ''a'')"
    by (simp add: instanceA_def currentInstance_def config0_def flags_login_def String_def)
  then have m: "\<exists>pre suf. inst_AuthorizationEndpoint instanceA = pre @ String flags_login ''a'' @ suf"
    by (simp add: Contains_iff)
  with Endpoint_Execute_result [where d = env0 and c = flags_login and w = world1]
       Endpoint_Execute_result [where d = env0 and c = flags_a and w = worldOut]
       Endpoint_Execute_result [where d = env0 and c = flags_a and w = world0]
       Endpoint_Execute_result [where d = envShowFails and c = flags_a and w = world0]
  show ?thesis
    by (simp add: Endpoint_Execute_def world1_def worldOut_def world0_def config0_def env0_def
          envShowFails_def instanceA_def instanceB_def currentInstance_def flags_login_def
          flags_a_def String_def ui_defs)
qed

section \<open>The login command: conflicting modes\<close>

text \<open>
  The flags are looked at after the endpoint has been set.  With an endpoint that cannot
  be set the login fails with that error; with one that can, the call that sets it
  precedes the usage error.
\<close>

theorem Execute_sso_conflict_cex:
  "Bool flags_sso_both ''sso'' \<and> IsSet flags_sso_both ''sso-passcode''
   \<and> map_option fst (Execute envUnreachable flags_sso_both world0)
       = Some (Some (ErrorString ''endpoint unreachable''))
   \<and> map_option (\<lambda>r. (fst r, calls (snd r))) (Execute env0 flags_sso_both world0)
       = Some (Some (ErrorString ''Incorrect usage: --sso-passcode flag cannot be used with --sso''),
               [Say ''API endpoint: {{.Endpoint}}'' [],
                SetAPIEndpoint ''https://api.example.com'' True ''login'',
                Say '''' [], ShowConfiguration])"
  by (simp add: Execute_def Execute_switch_def Execute_deferred_def setAPIEndpoint_def
       decideEndpoint_def flags_sso_both_def envUnreachable_def env0_def world0_def config0_def
       ui_defs Let_def String_def Bool_def IsSet_def)

lemma decideEndpoint_authenticator_calls:
  "filter isAuthenticatorCall (calls (snd (decideEndpoint d c w))) = filter isAuthenticatorCall (calls w)"
  by (simp add: decideEndpoint_def ui_defs Let_def split: prod.splits)

lemma setAPIEndpoint_result:
  "setAPIEndpoint d endpoint skipSSL cmdName w = (err, w') \<Longrightarrow>
     err = fst (api_setAPIEndpoint d endpoint skipSSL cmdName (config w))
     \<and> calls w' = calls w @ [SetAPIEndpoint endpoint skipSSL cmdName]"
  by (auto simp: setAPIEndpoint_def ui_defs Let_def split: prod.splits)

lemma Execute_deferred_calls:
  "calls (Execute_deferred d w) = calls w @ [Say '''' [], ShowConfiguration]"
  by (simp add: Execute_deferred_def ui_defs)

lemma Execute_switch_conflict:
  "Bool c ''sso'' \<Longrightarrow> IsSet c ''sso-passcode'' \<Longrightarrow>
   Execute_switch d c w =
     Some (Some (ErrorString (T d ''Incorrect usage: --sso-passcode flag cannot be used with --sso'' [])), w)"
  by (simp add: Execute_switch_def)

text \<open>
  C6 (amended).  With both \<open>--sso\<close> and \<open>--sso-passcode\<close> the login always fails and
  never calls the authenticator (neither for the prompts nor to authenticate).  The flags
  are looked at after the endpoint has been set: the call that sets the endpoint is made
  in every run.  When that call fails, the login returns its error and makes no further
  call.  When the version check fails with an error other than the notice of an
  unsupported version, the login returns that error, again with no further call.
  Otherwise the error is the usage error, and the calls are the one that sets the
  endpoint, the warning if the version is unsupported, and the deferred display of the
  configuration.
\<close>

theorem Execute_sso_conflict:
  assumes sso: "Bool c ''sso''" and passcode: "IsSet c ''sso-passcode''"
  shows "\<exists>r w'. Execute d c w = Some (Some r, w')
     \<and> filter isAuthenticatorCall (calls w') = filter isAuthenticatorCall (calls w)
     \<and> (let w1 = w\<lparr>config := config_ClearSession d (config w)\<rparr>;
             endpoint = fst (fst (decideEndpoint d c w1));
             skipSSL = snd (fst (decideEndpoint d c w1));
             w2 = snd (decideEndpoint d c w1);
             setResult = api_setAPIEndpoint d endpoint skipSSL ''login'' (config w2);
             usage = ErrorString (T d ''Incorrect usage: --sso-passcode flag cannot be used with --sso'' [])
         in case fst setResult of
              Some e \<Rightarrow>
                r = e \<and> calls w' = calls w2 @ [SetAPIEndpoint endpoint skipSSL ''login'']
            | None \<Rightarrow>
                (case MinimumCCAPIVersionCheck d (APIVersion (snd setResult)) of
                   Some (ErrorString m) \<Rightarrow>
                     r = ErrorString m
                     \<and> calls w' = calls w2 @ [SetAPIEndpoint endpoint skipSSL ''login'']
                 | Some (MinimumCFAPIVersionNotMetError m) \<Rightarrow>
                     r = usage
                     \<and> calls w' = calls w2 @
                         [SetAPIEndpoint endpoint skipSSL ''login'',
                          Warn ''Your API version is no longer supported. Upgrade to a newer version of the API.'',
                          Say '''' [], ShowConfiguration]
                 | None \<Rightarrow>
                     r = usage
                     \<and> calls w' = calls w2 @
                         [SetAPIEndpoint endpoint skipSSL ''login'', Say '''' [], ShowConfiguration]))"
proof -
  define w1 where "w1 = w\<lparr>config := config_ClearSession d (config w)\<rparr>"
  define endpoint where "endpoint = fst (fst (decideEndpoint d c w1))"
  define skipSSL where "skipSSL = snd (fst (decideEndpoint d c w1))"
  define w2 where "w2 = snd (decideEndpoint d c w1)"
  define setResult where "setResult = api_setAPIEndpoint d endpoint skipSSL ''login'' (config w2)"
  define w3 where "w3 = snd (setAPIEndpoint d endpoint skipSSL ''login'' w2)"
  define usage where
    "usage = ErrorString (T d ''Incorrect usage: --sso-passcode flag cannot be used with --sso'' [])"
  have de: "decideEndpoint d c w1 = ((endpoint, skipSSL), w2)"
    by (simp add: endpoint_def skipSSL_def w2_def)
  have sa: "setAPIEndpoint d endpoint skipSSL ''login'' w2 = (fst setResult, w3)"
    by (simp add: w3_def setResult_def setAPIEndpoint_def ui_defs Let_def split: prod.splits)
  from decideEndpoint_authenticator_calls [of d c w1]
  have c2: "filter isAuthenticatorCall (calls w2) = filter isAuthenticatorCall (calls w)"
    by (simp add: w1_def w2_def)
  have c3: "calls w3 = calls w2 @ [SetAPIEndpoint endpoint skipSSL ''login'']"
    and v3: "APIVersion (config w3) = APIVersion (snd setResult)"
    by (simp_all add: w3_def setResult_def setAPIEndpoint_def ui_defs Let_def split: prod.splits)
  have sw: "Execute_switch d c w' = Some (Some usage, w')" for w'
    by (simp add: usage_def Execute_switch_conflict [OF sso passcode])
  have ex: "Execute d c w =
     (case fst setResult of
        Some e \<Rightarrow> Some (Some e, w3)
      | None \<Rightarrow>
          (case MinimumCCAPIVersionCheck d (APIVersion (snd setResult)) of
             Some (ErrorString m) \<Rightarrow> Some (Some (ErrorString m), w3)
           | Some (MinimumCFAPIVersionNotMetError m) \<Rightarrow>
               Some (Some usage, Execute_deferred d
                 (ui_Warn ''Your API version is no longer supported. Upgrade to a newer version of the API.'' w3))
           | None \<Rightarrow> Some (Some usage, Execute_deferred d w3)))"
    by (simp add: Execute_def Let_def w1_def [symmetric] de sa sw v3
          split: option.splits error.splits)
  show ?thesis
    unfolding Let_def w1_def [symmetric] endpoint_def [symmetric] skipSSL_def [symmetric]
      w2_def [symmetric] setResult_def [symmetric] usage_def [symmetric] ex
    using c2 c3
    by (auto simp: Execute_deferred_calls ui_defs split: option.splits error.splits)
qed

theorem Execute_sso_conflict_witness:
  "Bool flags_sso_both ''sso'' \<and> IsSet flags_sso_both ''sso-passcode''
   \<and> (\<exists>w'. Execute env0 flags_sso_both world0 =
          Some (Some (ErrorString ''Incorrect usage: --sso-passcode flag cannot be used with --sso''), w')
        \<and> filter isAuthenticatorCall (calls w') = []
        \<and> calls w' = [Say ''API endpoint: {{.Endpoint}}'' [],
                       SetAPIEndpoint ''https://api.example.com'' True ''login'',
                       Say '''' [], ShowConfiguration])
   \<and> (\<exists>w'. Execute envUnreachable flags_sso_both world0 =
          Some (Some (ErrorString ''endpoint unreachable''), w')
        \<and> calls w' = [Say ''API endpoint: {{.Endpoint}}'' [],
                       SetAPIEndpoint ''https://api.example.com'' True ''login''])"
proof -
  have f: "Bool flags_sso_both ''sso''" "IsSet flags_sso_both ''sso-passcode''"
    by (simp_all add: flags_sso_both_def Bool_def IsSet_def)
  from Execute_sso_conflict [OF f, of env0 world0]
  have a: "\<exists>w'. Execute env0 flags_sso_both world0 =
          Some (Some (ErrorString ''Incorrect usage: --sso-passcode flag cannot be used with --sso''), w')
        \<and> filter isAuthenticatorCall (calls w') = []
        \<and> calls w' = [Say ''API endpoint: {{.Endpoint}}'' [],
                       SetAPIEndpoint ''https://api.example.com'' True ''login'',
                       Say '''' [], ShowConfiguration]"
    by (auto simp: env0_def world0_def config0_def decideEndpoint_def flags_sso_both_def
          String_def Bool_def ui_defs Let_def)
  from Execute_sso_conflict [OF f, of envUnreachable world0]
  have b: "\<exists>w'. Execute envUnreachable flags_sso_both world0 =
          Some (Some (ErrorString ''endpoint unreachable''), w')
        \<and> calls w' = [Say ''API endpoint: {{.Endpoint}}'' [],
                       SetAPIEndpoint ''https://api.example.com'' True ''login'']"
    by (auto simp: envUnreachable_def env0_def world0_def config0_def decideEndpoint_def
          flags_sso_both_def String_def Bool_def ui_defs Let_def)
  from f a b show ?thesis by blast
qed

section \<open>The interactive selector\<close>

lemma Atoi_empty [simp]: "Atoi [] = None"
  by (simp add: Atoi_def)

lemma sayNames_calls:
  "sayNames i names w =
     w\<lparr>calls := calls w @
          map (\<lambda>(j, name). Say ''%d. %s'' [IntArg (int j + 1), StrArg name]) (enumerate i names)\<rparr>"
  by (induction names arbitrary: i w) (simp_all add: ui_defs)

lemma promptForName_step:
  "promptForName d names listPrompt itemPrompt w =
     (let a = shd (answers w);
          w' = w\<lparr>answers := stl (answers w),
                 calls := calls w @ menuCalls d names listPrompt @ [Ask itemPrompt a]\<rparr>
      in if reprompts names a then promptForName d names listPrompt itemPrompt w'
         else Some (chosen names a, w'))"
  by (subst promptForName.simps)
     (auto simp: Let_def ui_defs sayNames_calls menuCalls_def reprompts_def chosen_def
           split: option.splits)

lemma promptForName_returns:
  "\<forall>j<k. reprompts names (answers w !! j) \<Longrightarrow> \<not> reprompts names (answers w !! k) \<Longrightarrow>
   promptForName d names listPrompt itemPrompt w =
     Some (chosen names (answers w !! k),
           w\<lparr>answers := sdrop (Suc k) (answers w),
             calls := calls w @ promptCalls d names listPrompt itemPrompt (stake (Suc k) (answers w))\<rparr>)"
proof (induction k arbitrary: w)
  case 0
  then show ?case
    by (subst promptForName_step) (simp add: promptCalls_def Let_def)
next
  case (Suc k)
  define w' where "w' = w\<lparr>answers := stl (answers w),
       calls := calls w @ menuCalls d names listPrompt @ [Ask itemPrompt (shd (answers w))]\<rparr>"
  from Suc.prems(1) have r0: "reprompts names (shd (answers w))"
    by (metis snth.simps(1) zero_less_Suc)
  have "\<forall>j<k. reprompts names (answers w' !! j)"
    using Suc.prems(1) by (auto simp: w'_def)
  moreover have "\<not> reprompts names (answers w' !! k)"
    using Suc.prems(2) by (simp add: w'_def)
  ultimately have "promptForName d names listPrompt itemPrompt w' =
     Some (chosen names (answers w' !! k),
           w'\<lparr>answers := sdrop (Suc k) (answers w'),
              calls := calls w' @ promptCalls d names listPrompt itemPrompt (stake (Suc k) (answers w'))\<rparr>)"
    by (rule Suc.IH)
  with r0 show ?case
    by (subst promptForName_step) (simp add: w'_def promptCalls_def Let_def)
qed

lemma promptForName_Some_settles:
  assumes some: "promptForName d names listPrompt itemPrompt w = Some y"
  shows "\<exists>k. \<not> reprompts names (answers w !! k)"
proof (rule promptForName.raw_induct
         [where P = "\<lambda>d names listPrompt itemPrompt w y. \<exists>k. \<not> reprompts names (answers w !! k)",
          OF _ some])
  fix f :: "env \<Rightarrow> string list \<Rightarrow> string \<Rightarrow> string \<Rightarrow> world \<Rightarrow> (string \<times> world) option"
    and d :: env and names :: "string list" and listPrompt itemPrompt :: string
    and w :: world and y :: "string \<times> world"
  assume IH: "\<And>d names listPrompt itemPrompt w y.
       f d names listPrompt itemPrompt w = Some y \<Longrightarrow> \<exists>k. \<not> reprompts names (answers w !! k)"
  assume body: "(let w = ui_Say listPrompt [] w;
          w = if length names < maxChoices then sayNames 0 names w
              else ui_Say (T d ''There are too many options to display, please type in the name.'' [])
                    [] w;
          (nameString, w) = ui_Ask itemPrompt w
      in if nameString = [] then Some ([], w)
         else case Atoi nameString of None \<Rightarrow> Some (nameString, w)
              | Some nameIndex \<Rightarrow>
                  if nameIndex < 1 \<or> int (length names) < nameIndex
                  then f d names listPrompt itemPrompt w
                  else Some (names ! nat (nameIndex - 1), w)) = Some y"
  show "\<exists>k. \<not> reprompts names (answers w !! k)"
  proof (cases "reprompts names (shd (answers w))")
    case False
    then have "\<not> reprompts names (answers w !! 0)" by simp
    then show ?thesis by blast
  next
    case True
    define w' where "w' = w\<lparr>answers := stl (answers w),
       calls := calls w @ menuCalls d names listPrompt @ [Ask itemPrompt (shd (answers w))]\<rparr>"
    from True body have "f d names listPrompt itemPrompt w' = Some y"
      by (auto simp: Let_def ui_defs sayNames_calls menuCalls_def reprompts_def w'_def
               split: option.splits if_splits)
    from IH [OF this] obtain k where "\<not> reprompts names (answers w' !! k)"
      by blast
    then have "\<not> reprompts names (answers w !! Suc k)"
      by (simp add: w'_def)
    then show ?thesis by blast
  qed
qed

text \<open>A run that never gets an answer ending the loop does not return.\<close>

lemma promptForName_diverges:
  "\<forall>k. reprompts names (answers w !! k) \<Longrightarrow> promptForName d names listPrompt itemPrompt w = None"
  using promptForName_Some_settles by (metis not_Some_eq)

lemma reprompts_iff:
  "reprompts names s \<longleftrightarrow> (\<exists>i. Atoi s = Some i \<and> (i < 1 \<or> int (length names) < i))"
  by (simp add: reprompts_def split: option.splits)

lemma asks_menuCalls [simp]: "filter isAsk (menuCalls d names listPrompt) = []"
  by (simp add: menuCalls_def filter_empty_conv split_def)

lemma asks_promptCalls:
  "length (filter isAsk (promptCalls d names listPrompt itemPrompt as)) = length as"
  by (induction as) (simp_all add: promptCalls_def)

lemma promptCalls_no_menu_lines:
  "maxChoices \<le> length names \<Longrightarrow>
     \<forall>e\<in>set (promptCalls d names listPrompt itemPrompt as). \<not> isMenuLine e"
  by (induction as) (simp_all add: promptCalls_def menuCalls_def)

lemma first_settling_answer:
  assumes "\<exists>k. \<not> reprompts names (as !! k)"
  obtains k where "\<not> reprompts names (as !! k)" and "\<forall>j<k. reprompts names (as !! j)"
proof -
  define k where "k = (LEAST k. \<not> reprompts names (as !! k))"
  from assms have "\<not> reprompts names (as !! k)"
    unfolding k_def by (rule LeastI_ex)
  moreover have "\<forall>j<k. reprompts names (as !! j)"
    unfolding k_def using not_less_Least by blast
  ultimately show thesis using that by blast
qed

lemma setOrganization_prompted:
  assumes o: "String c ''o'' = ''''"
    and l: "orgRepo_ListOrgs d maxChoices (config w) = Inr orgs"
    and n: "2 \<le> length orgs"
    and names: "names = map (\<lambda>org. org_Name (OrganizationFields_of org)) orgs"
    and again: "\<forall>j<k. reprompts names (answers w !! j)"
    and final: "\<not> reprompts names (answers w !! k)"
  shows "\<exists>r w' tail. setOrganization d c w = Some (r, w')
     \<and> calls w' = calls w @ ListOrgs maxChoices #
          promptCalls d names (T d ''Select an org (or press enter to skip):'' []) ''Org''
            (stake (Suc k) (answers w)) @ tail
     \<and> (\<forall>e\<in>set tail. \<not> isMenuLine e \<and> \<not> isAsk e)
     \<and> (answers w !! k = '''' \<longrightarrow> r = (False, None) \<and> config w' = config w)"
proof -
  define w1 where "w1 = record_call (ListOrgs maxChoices) w"
  define res where "res = chosen names (answers w !! k)"
  define w2 where "w2 = w1\<lparr>answers := sdrop (Suc k) (answers w1),
             calls := calls w1 @ promptCalls d names (T d ''Select an org (or press enter to skip):'' []) ''Org''
                (stake (Suc k) (answers w1))\<rparr>"
  from n obtain o1 o2 rest where orgs: "orgs = o1 # o2 # rest"
    by (cases orgs; cases "tl orgs") auto
  have a1: "answers w1 = answers w" and c1: "config w1 = config w"
    by (simp_all add: w1_def record_call_def)
  from again final
  have p: "promptForOrgName d orgs w1 = Some (res, w2)"
    unfolding promptForOrgName_def Let_def names [symmetric] res_def w2_def
    by (subst promptForName_returns [where k = k]) (simp_all add: a1)
  have so: "setOrganization d c w =
     (if res = '''' then Some ((False, None), ui_Say '''' [] w2)
      else Some (findAndTargetOrganization d res w2))"
    using o l p by (simp add: setOrganization_def Let_def w1_def [symmetric] c1 orgs)
  have c2: "calls w2 = calls w @ ListOrgs maxChoices #
          promptCalls d names (T d ''Select an org (or press enter to skip):'' []) ''Org''
            (stake (Suc k) (answers w))"
    by (simp add: w2_def w1_def record_call_def)
  have cfg2: "config w2 = config w"
    by (simp add: w2_def w1_def record_call_def)
  show ?thesis
  proof (cases "res = ''''")
    case True
    with so c2 cfg2 show ?thesis
      by (intro exI [of _ "(False, None)"] exI [of _ "ui_Say '''' [] w2"] exI [of _ "[Say '''' []]"])
         (simp add: ui_defs)
  next
    case False
    then have ne: "answers w !! k \<noteq> ''''"
      by (auto simp: res_def chosen_def)
    show ?thesis
    proof (cases "orgRepo_FindByName d res (config w)")
      case (Inl err)
      with so c2 cfg2 False ne show ?thesis
        by (intro exI [of _ "fst (findAndTargetOrganization d res w2)"]
                  exI [of _ "snd (findAndTargetOrganization d res w2)"]
                  exI [of _ "[FindOrgByName res]"])
           (simp add: findAndTargetOrganization_def ui_defs Let_def)
    next
      case (Inr org)
      with so c2 cfg2 False ne show ?thesis
        by (intro exI [of _ "fst (findAndTargetOrganization d res w2)"]
                  exI [of _ "snd (findAndTargetOrganization d res w2)"]
                  exI [of _ "[FindOrgByName res, Say (T d ''Targeted org {{.OrgName}}\<newline>''
               [(''OrgName'', EntityNameColor d (org_Name (OrganizationFields_of org)))]) []]"])
           (simp add: findAndTargetOrganization_def targetOrganization_def ui_defs Let_def)
    qed
  qed
qed

text \<open>
  The space menu offers at most \<open>maxChoices\<close> spaces.  After the menu, both
  \<open>setOrganization\<close> and \<open>setSpace\<close> stop on the empty selection and look any other one up.
\<close>

lemma listSpacesCallback_take:
  "length acc < maxChoices \<Longrightarrow> listSpacesCallback acc offered = take maxChoices (acc @ offered)"
proof (induction offered arbitrary: acc)
  case Nil
  then show ?case by simp
next
  case (Cons space rest)
  show ?case
  proof (cases "length (acc @ [space]) < maxChoices")
    case True
    from Cons.IH [OF True] True show ?thesis by (simp add: Let_def)
  next
    case False
    with Cons.prems have "maxChoices - length acc = Suc 0" by simp
    with False show ?thesis by (simp add: Let_def)
  qed
qed

lemma setOrganization_after_menu:
  assumes o: "String c ''o'' = ''''"
    and l: "orgRepo_ListOrgs d maxChoices (config w) = Inr orgs"
    and n: "2 \<le> length orgs"
    and names: "names = map (\<lambda>org. org_Name (OrganizationFields_of org)) orgs"
    and again: "\<forall>j<k. reprompts names (answers w !! j)"
    and final: "\<not> reprompts names (answers w !! k)"
    and w2: "w2 = w\<lparr>answers := sdrop (Suc k) (answers w),
             calls := calls w @ ListOrgs maxChoices #
               promptCalls d names (T d ''Select an org (or press enter to skip):'' []) ''Org''
                 (stake (Suc k) (answers w))\<rparr>"
    and res: "res = chosen names (answers w !! k)"
  shows "setOrganization d c w =
     (if res = '''' then Some ((False, None), ui_Say '''' [] w2)
      else Some (findAndTargetOrganization d res w2))"
proof -
  define w1 where "w1 = record_call (ListOrgs maxChoices) w"
  from n obtain o1 o2 rest where orgs: "orgs = o1 # o2 # rest"
    by (cases orgs; cases "tl orgs") auto
  have a1: "answers w1 = answers w" and c1: "config w1 = config w"
    by (simp_all add: w1_def record_call_def)
  have w2': "w2 = w1\<lparr>answers := sdrop (Suc k) (answers w1),
             calls := calls w1 @ promptCalls d names (T d ''Select an org (or press enter to skip):'' []) ''Org''
                (stake (Suc k) (answers w1))\<rparr>"
    by (simp add: w2 w1_def record_call_def)
  from again final
  have p: "promptForOrgName d orgs w1 = Some (res, w2)"
    unfolding promptForOrgName_def Let_def names [symmetric] res w2'
    by (subst promptForName_returns [where k = k]) (simp_all add: a1)
  show ?thesis
    using o l p by (simp add: setOrganization_def Let_def w1_def [symmetric] c1 orgs)
qed

lemma setSpace_after_menu:
  assumes s: "String c ''s'' = ''''"
    and l: "spaceRepo_ListSpaces d (config w) = (offered, None)"
    and n: "2 \<le> length offered"
    and names: "names = map (\<lambda>space. space_Name (SpaceFields_of space)) (take maxChoices offered)"
    and again: "\<forall>j<k. reprompts names (answers w !! j)"
    and final: "\<not> reprompts names (answers w !! k)"
    and w2: "w2 = w\<lparr>answers := sdrop (Suc k) (answers w),
             calls := calls w @ ListSpaces #
               promptCalls d names (T d ''Select a space (or press enter to skip):'' []) ''Space''
                 (stake (Suc k) (answers w))\<rparr>"
    and res: "res = chosen names (answers w !! k)"
  shows "setSpace d c w =
     (if res = '''' then Some (None, ui_Say '''' [] w2)
      else Some (findAndTargetSpace d res w2))"
proof -
  define w1 where "w1 = record_call ListSpaces w"
  define available where "available = listSpacesCallback [] offered"
  have av: "available = take maxChoices offered"
    unfolding available_def by (subst listSpacesCallback_take) (simp_all add: maxChoices_def)
  with n have "2 \<le> length available"
    by (simp add: maxChoices_def)
  then obtain s1 s2 rest where sp: "available = s1 # s2 # rest"
    by (cases available; cases "tl available") auto
  have a1: "answers w1 = answers w" and c1: "config w1 = config w"
    by (simp_all add: w1_def record_call_def)
  have w2': "w2 = w1\<lparr>answers := sdrop (Suc k) (answers w1),
             calls := calls w1 @ promptCalls d names (T d ''Select a space (or press enter to skip):'' []) ''Space''
                (stake (Suc k) (answers w1))\<rparr>"
    by (simp add: w2 w1_def record_call_def)
  from again final
  have p: "promptForSpaceName d available w1 = Some (res, w2)"
    unfolding promptForSpaceName_def Let_def names av [symmetric] res w2'
    by (subst promptForName_returns [where k = k]) (simp_all add: a1 names av)
  show ?thesis
    using s l p
    by (simp add: setSpace_def Let_def w1_def [symmetric] c1 available_def [symmetric] sp)
qed

lemma setOrganization_menu_result:
  assumes o: "String c ''o'' = ''''"
    and l: "orgRepo_ListOrgs d maxChoices (config w) = Inr orgs"
    and n: "2 \<le> length orgs"
    and names: "names = map (\<lambda>org. org_Name (OrganizationFields_of org)) orgs"
    and again: "\<forall>j<k. reprompts names (answers w !! j)"
    and final: "\<not> reprompts names (answers w !! k)"
    and res: "res = chosen names (answers w !! k)"
  shows "(res = '''' \<longrightarrow>
          (\<exists>w''. setOrganization d c w = Some ((False, None), w'') \<and> config w'' = config w
             \<and> length (filter isAsk (calls w'')) = length (filter isAsk (calls w)) + Suc k))
     \<and> (res \<noteq> '''' \<longrightarrow>
          (\<forall>err. orgRepo_FindByName d res (config w) = Inl err \<longrightarrow>
             (\<exists>w''. setOrganization d c w =
                  Some ((False, Some (ErrorString (T d ''Error finding org {{.OrgName}}\<newline>{{.Err}}''
                     [(''OrgName'', EntityNameColor d res), (''Err'', Error err)]))), w'')
                \<and> config w'' = config w
                \<and> FindOrgByName res \<in> set (calls w'')
                \<and> length (filter isAsk (calls w'')) = length (filter isAsk (calls w)) + Suc k))
        \<and> (\<forall>org. orgRepo_FindByName d res (config w) = Inr org \<longrightarrow>
             (\<exists>w''. setOrganization d c w = Some ((True, None), w'')
                \<and> OrganizationFields (config w'') = OrganizationFields_of org
                \<and> FindOrgByName res \<in> set (calls w'')
                \<and> length (filter isAsk (calls w'')) = length (filter isAsk (calls w)) + Suc k)))"
proof -
  define w2 where "w2 = w\<lparr>answers := sdrop (Suc k) (answers w),
             calls := calls w @ ListOrgs maxChoices #
               promptCalls d names (T d ''Select an org (or press enter to skip):'' []) ''Org''
                 (stake (Suc k) (answers w))\<rparr>"
  note eq = setOrganization_after_menu [OF o l n names again final w2_def res]
  have cfg: "config w2 = config w"
    by (simp add: w2_def)
  have asks: "length (filter isAsk (calls w2)) = length (filter isAsk (calls w)) + Suc k"
    by (simp add: w2_def asks_promptCalls)
  show ?thesis
    using eq cfg asks
    by (auto simp: findAndTargetOrganization_def targetOrganization_def ui_defs Let_def)
qed

lemma setSpace_menu_result:
  assumes s: "String c ''s'' = ''''"
    and l: "spaceRepo_ListSpaces d (config w) = (offered, None)"
    and n: "2 \<le> length offered"
    and names: "names = map (\<lambda>space. space_Name (SpaceFields_of space)) (take maxChoices offered)"
    and again: "\<forall>j<k. reprompts names (answers w !! j)"
    and final: "\<not> reprompts names (answers w !! k)"
    and res: "res = chosen names (answers w !! k)"
  shows "(res = '''' \<longrightarrow>
          (\<exists>w''. setSpace d c w = Some (None, w'') \<and> config w'' = config w
             \<and> length (filter isAsk (calls w'')) = length (filter isAsk (calls w)) + Suc k))
     \<and> (res \<noteq> '''' \<longrightarrow>
          (\<forall>err. spaceRepo_FindByName d res (config w) = Inl err \<longrightarrow>
             (\<exists>w''. setSpace d c w =
                  Some (Some (ErrorString (T d ''Error finding space {{.SpaceName}}\<newline>{{.Err}}''
                     [(''SpaceName'', EntityNameColor d res), (''Err'', Error err)])), w'')
                \<and> config w'' = config w
                \<and> FindSpaceByName res \<in> set (calls w'')
                \<and> length (filter isAsk (calls w'')) = length (filter isAsk (calls w)) + Suc k))
        \<and> (\<forall>space. spaceRepo_FindByName d res (config w) = Inr space \<longrightarrow>
             (\<exists>w''. setSpace d c w = Some (None, w'')
                \<and> SpaceFields (config w'') = SpaceFields_of space
                \<and> FindSpaceByName res \<in> set (calls w'')
                \<and> length (filter isAsk (calls w'')) = length (filter isAsk (calls w)) + Suc k)))"
proof -
  define w2 where "w2 = w\<lparr>answers := sdrop (Suc k) (answers w),
             calls := calls w @ ListSpaces #
               promptCalls d names (T d ''Select a space (or press enter to skip):'' []) ''Space''
                 (stake (Suc k) (answers w))\<rparr>"
  note eq = setSpace_after_menu [OF s l n names again final w2_def res]
  have cfg: "config w2 = config w"
    by (simp add: w2_def)
  have asks: "length (filter isAsk (calls w2)) = length (filter isAsk (calls w)) + Suc k"
    by (simp add: w2_def asks_promptCalls)
  show ?thesis
    using eq cfg asks
    by (auto simp: findAndTargetSpace_def targetSpace_def ui_defs Let_def)
qed

text \<open>
  C8.  While the answers are numbers outside \<open>1 .. N\<close> the selector asks again.  The
  first other answer ends it, after one question per answer: the empty answer gives no
  selection, an answer that is not a number is returned as it is, whether or not it is one
  of the names, and a number in \<open>1 .. N\<close> gives the listed name at that position.

  Both menus are this selector.  With no \<open>-o\<close> flag and at least two organizations
  listed, \<open>setOrganization\<close> runs it on their names; with no \<open>-s\<close> flag and at least two
  spaces listed, \<open>setSpace\<close> runs it on the names of the first fifty.  In either, the empty
  answer ends the targeting without an error, with the configuration as it was and without
  a lookup; any other selection is looked up by name, a literal name as well as a listed
  one: a failed lookup is the error of the command and leaves the configuration as it was,
  a successful one stores the organization or space found.
\<close>

theorem promptForName_until:
  assumes again: "\<forall>j<k. \<exists>i. Atoi (answers w !! j) = Some i \<and> (i < 1 \<or> int (length names) < i)"
    and final: "\<not> (\<exists>i. Atoi (answers w !! k) = Some i \<and> (i < 1 \<or> int (length names) < i))"
  shows "\<exists>res w'. promptForName d names listPrompt itemPrompt w = Some (res, w')
     \<and> length (filter isAsk (calls w')) = length (filter isAsk (calls w)) + Suc k
     \<and> (answers w !! k = '''' \<longrightarrow> res = '''')
     \<and> (Atoi (answers w !! k) = None \<longrightarrow> res = answers w !! k)
     \<and> (\<forall>i. Atoi (answers w !! k) = Some i \<longrightarrow>
            1 \<le> i \<and> i \<le> int (length names) \<and> res = names ! nat (i - 1))
     \<and> (String c ''o'' = '''' \<and> orgRepo_ListOrgs d maxChoices (config w) = Inr orgs
          \<and> 2 \<le> length orgs \<and> names = map (\<lambda>org. org_Name (OrganizationFields_of org)) orgs \<longrightarrow>
        (res = '''' \<longrightarrow>
          (\<exists>w''. setOrganization d c w = Some ((False, None), w'') \<and> config w'' = config w
             \<and> length (filter isAsk (calls w'')) = length (filter isAsk (calls w)) + Suc k))
        \<and> (res \<noteq> '''' \<longrightarrow>
          (\<forall>err. orgRepo_FindByName d res (config w) = Inl err \<longrightarrow>
             (\<exists>w''. setOrganization d c w =
                  Some ((False, Some (ErrorString (T d ''Error finding org {{.OrgName}}\<newline>{{.Err}}''
                     [(''OrgName'', EntityNameColor d res), (''Err'', Error err)]))), w'')
                \<and> config w'' = config w
                \<and> FindOrgByName res \<in> set (calls w'')
                \<and> length (filter isAsk (calls w'')) = length (filter isAsk (calls w)) + Suc k))
          \<and> (\<forall>org. orgRepo_FindByName d res (config w) = Inr org \<longrightarrow>
             (\<exists>w''. setOrganization d c w = Some ((True, None), w'')
                \<and> OrganizationFields (config w'') = OrganizationFields_of org
                \<and> FindOrgByName res \<in> set (calls w'')
                \<and> length (filter isAsk (calls w'')) = length (filter isAsk (calls w)) + Suc k))))
     \<and> (String c ''s'' = '''' \<and> spaceRepo_ListSpaces d (config w) = (offered, None)
          \<and> 2 \<le> length offered
          \<and> names = map (\<lambda>space. space_Name (SpaceFields_of space)) (take maxChoices offered) \<longrightarrow>
        (res = '''' \<longrightarrow>
          (\<exists>w''. setSpace d c w = Some (None, w'') \<and> config w'' = config w
             \<and> length (filter isAsk (calls w'')) = length (filter isAsk (calls w)) + Suc k))
        \<and> (res \<noteq> '''' \<longrightarrow>
          (\<forall>err. spaceRepo_FindByName d res (config w) = Inl err \<longrightarrow>
             (\<exists>w''. setSpace d c w =
                  Some (Some (ErrorString (T d ''Error finding space {{.SpaceName}}\<newline>{{.Err}}''
                     [(''SpaceName'', EntityNameColor d res), (''Err'', Error err)])), w'')
                \<and> config w'' = config w
                \<and> FindSpaceByName res \<in> set (calls w'')
                \<and> length (filter isAsk (calls w'')) = length (filter isAsk (calls w)) + Suc k))
          \<and> (\<forall>space. spaceRepo_FindByName d res (config w) = Inr space \<longrightarrow>
             (\<exists>w''. setSpace d c w = Some (None, w'')
                \<and> SpaceFields (config w'') = SpaceFields_of space
                \<and> FindSpaceByName res \<in> set (calls w'')
                \<and> length (filter isAsk (calls w'')) = length (filter isAsk (calls w)) + Suc k))))"
proof -
  from again have a: "\<forall>j<k. reprompts names (answers w !! j)"
    by (simp add: reprompts_iff)
  from final have f: "\<not> reprompts names (answers w !! k)"
    by (simp add: reprompts_iff)
  define res where "res = chosen names (answers w !! k)"
  define w' where "w' = w\<lparr>answers := sdrop (Suc k) (answers w),
      calls := calls w @ promptCalls d names listPrompt itemPrompt (stake (Suc k) (answers w))\<rparr>"
  have r: "promptForName d names listPrompt itemPrompt w = Some (res, w')"
    unfolding res_def w'_def by (rule promptForName_returns [OF a f])
  have asks: "length (filter isAsk (calls w')) = length (filter isAsk (calls w)) + Suc k"
    by (simp add: w'_def asks_promptCalls)
  from final have range: "\<forall>i. Atoi (answers w !! k) = Some i \<longrightarrow> 1 \<le> i \<and> i \<le> int (length names)"
    by auto
  have sel: "(answers w !! k = '''' \<longrightarrow> res = '''')
     \<and> (Atoi (answers w !! k) = None \<longrightarrow> res = answers w !! k)
     \<and> (\<forall>i. Atoi (answers w !! k) = Some i \<longrightarrow>
            1 \<le> i \<and> i \<le> int (length names) \<and> res = names ! nat (i - 1))"
    using range by (auto simp: res_def chosen_def)
  note org = setOrganization_menu_result [OF _ _ _ _ a f res_def, of c d orgs]
  note space = setSpace_menu_result [OF _ _ _ _ a f res_def, of c d offered]
  show ?thesis
    apply (rule exI [of _ res])
    apply (rule exI [of _ w'])
    apply (intro conjI)
          apply (rule r)
         apply (rule asks)
        apply (rule sel [THEN conjunct1])
       apply (rule sel [THEN conjunct2, THEN conjunct1])
      apply (rule sel [THEN conjunct2, THEN conjunct2])
     apply (rule impI, elim conjE, erule (3) org)
    apply (rule impI, elim conjE, erule (3) space)
    done
qed

text \<open>
  C7.  Without the \<open>-o\<close> flag and with \<open>N\<close> organizations listed: for \<open>N = 0\<close> nothing
  is targeted, nothing is asked, there is no error, and the targeting stage goes on to
  the notification without a call for the spaces; for \<open>N = 1\<close> the organization is
  targeted and nothing is asked; for \<open>2 \<le> N < 50\<close> the header and the names numbered
  from 1 precede the question; for \<open>N \<ge> 50\<close> the header and the instruction to type the
  name precede the question and no numbered line is shown at all.  (In the last two cases
  the user eventually gives an answer that ends the selection; otherwise
  \<open>setOrganization\<close> does not return.)
\<close>

theorem setOrganization_by_count:
  assumes o: "String c ''o'' = ''''"
    and l: "orgRepo_ListOrgs d maxChoices (config w) = Inr orgs"
    and names: "names = map (\<lambda>org. org_Name (OrganizationFields_of org)) orgs"
  shows "(length orgs = 0 \<longrightarrow>
        (\<exists>w'. setOrganization d c w = Some ((False, None), w')
           \<and> calls w' = calls w @ [ListOrgs maxChoices] \<and> config w' = config w)
        \<and> (\<exists>w'. Execute_targeting d c w = Some (None, w')
           \<and> calls w' = calls w @ [ListOrgs maxChoices, NotifyUpdateIfNeeded]))
     \<and> (length orgs = 1 \<longrightarrow>
        (\<exists>w'. setOrganization d c w = Some ((True, None), w')
           \<and> calls w' = calls w @ [ListOrgs maxChoices,
                Say (T d ''Targeted org {{.OrgName}}\<newline>''
                       [(''OrgName'', EntityNameColor d (org_Name (OrganizationFields_of (hd orgs))))]) []]
           \<and> OrganizationFields (config w') = OrganizationFields_of (hd orgs)))
     \<and> (2 \<le> length orgs \<and> length orgs < 50
          \<and> (\<exists>k. \<not> (\<exists>i. Atoi (answers w !! k) = Some i \<and> (i < 1 \<or> int (length orgs) < i))) \<longrightarrow>
        (\<exists>r w' rest. setOrganization d c w = Some (r, w')
           \<and> calls w' = calls w @ [ListOrgs maxChoices,
                Say (T d ''Select an org (or press enter to skip):'' []) []]
              @ map (\<lambda>(i, name). Say ''%d. %s'' [IntArg (int i + 1), StrArg name]) (enumerate 0 names)
              @ [Ask ''Org'' (shd (answers w))] @ rest))
     \<and> (50 \<le> length orgs
          \<and> (\<exists>k. \<not> (\<exists>i. Atoi (answers w !! k) = Some i \<and> (i < 1 \<or> int (length orgs) < i))) \<longrightarrow>
        (\<exists>r w' rest. setOrganization d c w = Some (r, w')
           \<and> calls w' = calls w @ [ListOrgs maxChoices,
                Say (T d ''Select an org (or press enter to skip):'' []) [],
                Say (T d ''There are too many options to display, please type in the name.'' []) [],
                Ask ''Org'' (shd (answers w))] @ rest
           \<and> (\<forall>e\<in>set (drop (length (calls w)) (calls w')). \<not> isMenuLine e)))"
proof (intro conjI impI)
  assume "length orgs = 0"
  then have e: "orgs = []" by simp
  with o l show "\<exists>w'. setOrganization d c w = Some ((False, None), w')
           \<and> calls w' = calls w @ [ListOrgs maxChoices] \<and> config w' = config w"
    by (simp add: setOrganization_def ui_defs)
  from e o l show "\<exists>w'. Execute_targeting d c w = Some (None, w')
           \<and> calls w' = calls w @ [ListOrgs maxChoices, NotifyUpdateIfNeeded]"
    by (simp add: Execute_targeting_def setOrganization_def updateMultiInstances_def ui_defs Let_def)
next
  assume "length orgs = 1"
  then obtain org where "orgs = [org]"
    by (cases orgs) auto
  with o l show "\<exists>w'. setOrganization d c w = Some ((True, None), w')
           \<and> calls w' = calls w @ [ListOrgs maxChoices,
                Say (T d ''Targeted org {{.OrgName}}\<newline>''
                       [(''OrgName'', EntityNameColor d (org_Name (OrganizationFields_of (hd orgs))))]) []]
           \<and> OrganizationFields (config w') = OrganizationFields_of (hd orgs)"
    by (simp add: setOrganization_def targetOrganization_def ui_defs)
next
  assume a: "2 \<le> length orgs \<and> length orgs < 50
          \<and> (\<exists>k. \<not> (\<exists>i. Atoi (answers w !! k) = Some i \<and> (i < 1 \<or> int (length orgs) < i)))"
  then have "\<exists>k. \<not> reprompts names (answers w !! k)"
    by (simp add: reprompts_iff names)
  then obtain k where f: "\<not> reprompts names (answers w !! k)"
    and ag: "\<forall>j<k. reprompts names (answers w !! j)"
    by (rule first_settling_answer)
  from a have n: "2 \<le> length orgs" by simp
  from a have small: "length names < maxChoices" by (simp add: names maxChoices_def)
  from setOrganization_prompted [OF o l n names ag f]
  obtain r w' tail where so: "setOrganization d c w = Some (r, w')"
    and c: "calls w' = calls w @ ListOrgs maxChoices #
          promptCalls d names (T d ''Select an org (or press enter to skip):'' []) ''Org''
            (stake (Suc k) (answers w)) @ tail"
    by blast
  from c small have "calls w' = calls w @ [ListOrgs maxChoices,
                Say (T d ''Select an org (or press enter to skip):'' []) []]
              @ map (\<lambda>(i, name). Say ''%d. %s'' [IntArg (int i + 1), StrArg name]) (enumerate 0 names)
              @ [Ask ''Org'' (shd (answers w))]
              @ (promptCalls d names (T d ''Select an org (or press enter to skip):'' []) ''Org''
                   (stake k (stl (answers w))) @ tail)"
    by (simp add: promptCalls_def menuCalls_def)
  with so show "\<exists>r w' rest. setOrganization d c w = Some (r, w')
           \<and> calls w' = calls w @ [ListOrgs maxChoices,
                Say (T d ''Select an org (or press enter to skip):'' []) []]
              @ map (\<lambda>(i, name). Say ''%d. %s'' [IntArg (int i + 1), StrArg name]) (enumerate 0 names)
              @ [Ask ''Org'' (shd (answers w))] @ rest"
    by blast
next
  assume a: "50 \<le> length orgs
          \<and> (\<exists>k. \<not> (\<exists>i. Atoi (answers w !! k) = Some i \<and> (i < 1 \<or> int (length orgs) < i)))"
  then have "\<exists>k. \<not> reprompts names (answers w !! k)"
    by (simp add: reprompts_iff names)
  then obtain k where f: "\<not> reprompts names (answers w !! k)"
    and ag: "\<forall>j<k. reprompts names (answers w !! j)"
    by (rule first_settling_answer)
  from a have n: "2 \<le> length orgs" by simp
  from a have big: "maxChoices \<le> length names" by (simp add: names maxChoices_def)
  from setOrganization_prompted [OF o l n names ag f]
  obtain r w' tail where so: "setOrganization d c w = Some (r, w')"
    and c: "calls w' = calls w @ ListOrgs maxChoices #
          promptCalls d names (T d ''Select an org (or press enter to skip):'' []) ''Org''
            (stake (Suc k) (answers w)) @ tail"
    and t: "\<forall>e\<in>set tail. \<not> isMenuLine e \<and> \<not> isAsk e"
    by blast
  from c big have c': "calls w' = calls w @ [ListOrgs maxChoices,
                Say (T d ''Select an org (or press enter to skip):'' []) [],
                Say (T d ''There are too many options to display, please type in the name.'' []) [],
                Ask ''Org'' (shd (answers w))]
              @ (promptCalls d names (T d ''Select an org (or press enter to skip):'' []) ''Org''
                   (stake k (stl (answers w))) @ tail)"
    by (simp add: promptCalls_def menuCalls_def)
  from c t promptCalls_no_menu_lines [OF big]
  have "\<forall>e\<in>set (drop (length (calls w)) (calls w')). \<not> isMenuLine e"
    by auto
  with so c' show "\<exists>r w' rest. setOrganization d c w = Some (r, w')
           \<and> calls w' = calls w @ [ListOrgs maxChoices,
                Say (T d ''Select an org (or press enter to skip):'' []) [],
                Say (T d ''There are too many options to display, please type in the name.'' []) [],
                Ask ''Org'' (shd (answers w))] @ rest
           \<and> (\<forall>e\<in>set (drop (length (calls w)) (calls w')). \<not> isMenuLine e)"
    by blast
qed

lemma Atoi_examples:
  "Atoi ''0'' = Some 0" "Atoi ''7'' = Some 7" "Atoi ''2'' = Some 2" "Atoi ''org-z'' = None"
  "Atoi ''-3'' = Some (-3)" "Atoi ''+5'' = Some 5" "Atoi ''12a'' = None" "Atoi ''-'' = None"
  "Atoi ''99999999999999999999'' = None" "Atoi ''9223372036854775807'' = Some 9223372036854775807"
  by (simp_all add: Atoi_def isDigit_def digitsValue_def)

theorem promptForName_until_witness:
  "Atoi (answers worldPick !! 0) = Some 0
   \<and> Atoi (answers worldPick !! 1) = Some 7
   \<and> Atoi (answers worldPick !! 2) = Some 2
   \<and> (\<exists>w'. promptForName env0 [''org-a'', ''org-b''] ''Select'' ''Org'' worldPick = Some (''org-b'', w')
         \<and> length (filter isAsk (calls w')) = 3)
   \<and> Atoi (answers worldName !! 0) = None
   \<and> (\<exists>w'. promptForName env0 [''org-a'', ''org-b''] ''Select'' ''Org'' worldName = Some (''org-z'', w'))
   \<and> answers world0 !! 0 = ''''
   \<and> (\<exists>w'. setOrganization (envOrgs [orgA, orgB]) Map.empty world0 = Some ((False, None), w')
         \<and> config w' = config world0)
   \<and> (\<exists>w'. setOrganization (envOrgs [orgA, orgB]) Map.empty worldPick = Some ((True, None), w')
         \<and> OrganizationFields (config w') = OrganizationFields_of orgB
         \<and> FindOrgByName ''org-b'' \<in> set (calls w'))
   \<and> (\<exists>w'. setSpace envSpaces Map.empty world0 = Some (None, w') \<and> config w' = config world0)
   \<and> (\<exists>w'. setSpace envSpaces Map.empty worldPick = Some (None, w')
         \<and> SpaceFields (config w') = SpaceFields_of spaceB
         \<and> FindSpaceByName ''space-b'' \<in> set (calls w'))
   \<and> (\<exists>w'. setSpace envSpaces Map.empty worldName =
           Some (Some (ErrorString ''Error finding space {{.SpaceName}}\<newline>{{.Err}}''), w')
         \<and> FindSpaceByName ''org-z'' \<in> set (calls w'))"
proof -
  have a: "Atoi (answers worldPick !! 0) = Some 0" "Atoi (answers worldPick !! 1) = Some 7"
    "Atoi (answers worldPick !! 2) = Some 2" "Atoi (answers worldName !! 0) = None"
    "answers world0 !! 0 = ''''" "Atoi (answers world0 !! 0) = None"
    by (simp_all add: worldPick_def worldName_def world0_def Atoi_examples numeral_2_eq_2)
  have a1: "Atoi (answers worldPick !! Suc 0) = Some 7"
    using a(2) by simp
  have h1: "\<forall>j<2. \<exists>i. Atoi (answers worldPick !! j) = Some i \<and> (i < 1 \<or> int (length names) < i)"
    if "length names = 2" for names :: "string list"
    using a(1) a1 that by (auto simp: less_Suc_eq numeral_2_eq_2)
  have h2: "\<not> (\<exists>i. Atoi (answers worldPick !! 2) = Some i \<and> (i < 1 \<or> int (length names) < i))"
    if "length names = 2" for names :: "string list"
    using a(3) that by simp
  have h3: "\<forall>j<0. \<exists>i. Atoi (answers w !! j) = Some i \<and> (i < 1 \<or> int (length names) < i)"
    for w and names :: "string list"
    by simp
  have h4: "\<not> (\<exists>i. Atoi (answers worldName !! 0) = Some i \<and> (i < 1 \<or> int (length names) < i))"
    for names :: "string list"
    using a(4) by simp
  have h5: "\<not> (\<exists>i. Atoi (answers world0 !! 0) = Some i \<and> (i < 1 \<or> int (length names) < i))"
    for names :: "string list"
    using a(6) by simp
  have l2: "length [''org-a'', ''org-b''] = 2" "length [''space-a'', ''space-b''] = 2"
    by simp_all
  note pick_org = promptForName_until [where k = 2 and w = worldPick and names = "[''org-a'', ''org-b'']"
         and listPrompt = "''Select''" and itemPrompt = "''Org''" and c = Map.empty
         and orgs = "[orgA, orgB]" and offered = "[]", OF h1 [OF l2(1)] h2 [OF l2(1)]]
  note name_org = promptForName_until [where k = 0 and w = worldName and names = "[''org-a'', ''org-b'']"
         and listPrompt = "''Select''" and itemPrompt = "''Org''" and c = Map.empty
         and orgs = "[orgA, orgB]" and offered = "[]", OF h3 h4]
  note none_org = promptForName_until [where k = 0 and w = world0 and names = "[''org-a'', ''org-b'']"
         and listPrompt = "''Select''" and itemPrompt = "''Org''" and c = Map.empty
         and orgs = "[orgA, orgB]" and offered = "[]", OF h3 h5]
  note pick_space = promptForName_until [where k = 2 and w = worldPick and names = "[''space-a'', ''space-b'']"
         and listPrompt = "''Select''" and itemPrompt = "''Space''" and c = Map.empty
         and orgs = "[]" and offered = "[spaceA, spaceB]", OF h1 [OF l2(2)] h2 [OF l2(2)]]
  note name_space = promptForName_until [where k = 0 and w = worldName and names = "[''space-a'', ''space-b'']"
         and listPrompt = "''Select''" and itemPrompt = "''Space''" and c = Map.empty
         and orgs = "[]" and offered = "[spaceA, spaceB]", OF h3 h4]
  note none_space = promptForName_until [where k = 0 and w = world0 and names = "[''space-a'', ''space-b'']"
         and listPrompt = "''Select''" and itemPrompt = "''Space''" and c = Map.empty
         and orgs = "[]" and offered = "[spaceA, spaceB]", OF h3 h5]
  from pick_org [of env0] a(3)
  have p1: "\<exists>w'. promptForName env0 [''org-a'', ''org-b''] ''Select'' ''Org'' worldPick = Some (''org-b'', w')
         \<and> length (filter isAsk (calls w')) = 3"
    by (auto simp: worldPick_def world0_def)
  from name_org [of env0] a(4)
  have p2: "\<exists>w'. promptForName env0 [''org-a'', ''org-b''] ''Select'' ''Org'' worldName = Some (''org-z'', w')"
    by (auto simp: worldName_def)
  from none_org [of "envOrgs [orgA, orgB]"] a(5)
  have p3: "\<exists>w'. setOrganization (envOrgs [orgA, orgB]) Map.empty world0 = Some ((False, None), w')
         \<and> config w' = config world0"
    by (auto simp: String_def envOrgs_def env0_def orgA_def orgB_def)
  from pick_org [of "envOrgs [orgA, orgB]"] a(3)
  have p4: "\<exists>w'. setOrganization (envOrgs [orgA, orgB]) Map.empty worldPick = Some ((True, None), w')
         \<and> OrganizationFields (config w') = OrganizationFields_of orgB
         \<and> FindOrgByName ''org-b'' \<in> set (calls w')"
    by (auto simp: String_def envOrgs_def env0_def orgA_def orgB_def)
  from none_space [of envSpaces] a(5)
  have p5: "\<exists>w'. setSpace envSpaces Map.empty world0 = Some (None, w') \<and> config w' = config world0"
    by (auto simp: String_def envSpaces_def env0_def spaceA_def spaceB_def maxChoices_def)
  from pick_space [of envSpaces] a(3)
  have p6: "\<exists>w'. setSpace envSpaces Map.empty worldPick = Some (None, w')
         \<and> SpaceFields (config w') = SpaceFields_of spaceB
         \<and> FindSpaceByName ''space-b'' \<in> set (calls w')"
    by (auto simp: String_def envSpaces_def env0_def spaceA_def spaceB_def maxChoices_def)
  from name_space [of envSpaces] a(4)
  have p7: "\<exists>w'. setSpace envSpaces Map.empty worldName =
           Some (Some (ErrorString ''Error finding space {{.SpaceName}}\<newline>{{.Err}}''), w')
         \<and> FindSpaceByName ''org-z'' \<in> set (calls w')"
    by (auto simp: String_def envSpaces_def env0_def spaceA_def spaceB_def maxChoices_def
          worldName_def)
  from a p1 p2 p3 p4 p5 p6 p7 show ?thesis by simp
qed

theorem setOrganization_by_count_witness:
  "(\<exists>w'. setOrganization env0 Map.empty world0 = Some ((False, None), w')
       \<and> calls w' = [ListOrgs 50] \<and> config w' = config world0)
   \<and> (\<exists>w'. Execute_targeting env0 Map.empty world0 = Some (None, w')
       \<and> calls w' = [ListOrgs 50, NotifyUpdateIfNeeded])
   \<and> (\<exists>w'. setOrganization (envOrgs [orgA]) Map.empty world0 = Some ((True, None), w')
       \<and> calls w' = [ListOrgs 50, Say ''Targeted org {{.OrgName}}\<newline>'' []]
       \<and> OrganizationFields (config w') = OrganizationFields_of orgA)
   \<and> (\<exists>r w' rest. setOrganization (envOrgs [orgA, orgB]) Map.empty worldPick = Some (r, w')
       \<and> calls w' = [ListOrgs 50, Say ''Select an org (or press enter to skip):'' [],
                      Say ''%d. %s'' [IntArg 1, StrArg ''org-a''],
                      Say ''%d. %s'' [IntArg 2, StrArg ''org-b''],
                      Ask ''Org'' ''0''] @ rest)
   \<and> (\<exists>r w' rest. setOrganization (envOrgs (replicate 50 orgA)) Map.empty worldName = Some (r, w')
       \<and> calls w' = [ListOrgs 50, Say ''Select an org (or press enter to skip):'' [],
                      Say ''There are too many options to display, please type in the name.'' [],
                      Ask ''Org'' ''org-z''] @ rest)"
proof -
  have o: "String Map.empty ''o'' = ''''"
    by (simp add: String_def)
  have l: "orgRepo_ListOrgs (envOrgs orgs) maxChoices (config w) = Inr orgs" for orgs w
    by (simp add: envOrgs_def)
  have l0: "orgRepo_ListOrgs env0 maxChoices (config world0) = Inr []"
    by (simp add: env0_def)
  have k2: "\<exists>k. \<not> (\<exists>i. Atoi (answers worldPick !! k) = Some i
                \<and> (i < 1 \<or> int (length [orgA, orgB]) < i))"
    by (rule exI [of _ 2]) (simp add: worldPick_def world0_def Atoi_examples numeral_2_eq_2)
  have k0: "\<exists>k. \<not> (\<exists>i. Atoi (answers worldName !! k) = Some i
                \<and> (i < 1 \<or> int (length (replicate 50 orgA)) < i))"
    by (rule exI [of _ 0]) (simp add: worldName_def world0_def Atoi_examples)
  from setOrganization_by_count [OF o l0 refl]
  have p0: "(\<exists>w'. setOrganization env0 Map.empty world0 = Some ((False, None), w')
       \<and> calls w' = [ListOrgs 50] \<and> config w' = config world0)
     \<and> (\<exists>w'. Execute_targeting env0 Map.empty world0 = Some (None, w')
       \<and> calls w' = [ListOrgs 50, NotifyUpdateIfNeeded])"
    by (simp add: world0_def maxChoices_def)
  from setOrganization_by_count [OF o l [of "[orgA]" world0] refl]
  have p1: "\<exists>w'. setOrganization (envOrgs [orgA]) Map.empty world0 = Some ((True, None), w')
       \<and> calls w' = [ListOrgs 50, Say ''Targeted org {{.OrgName}}\<newline>'' []]
       \<and> OrganizationFields (config w') = OrganizationFields_of orgA"
    by (simp add: world0_def maxChoices_def envOrgs_def env0_def)
  from setOrganization_by_count [OF o l [of "[orgA, orgB]" worldPick] refl] k2
  have p2: "\<exists>r w' rest. setOrganization (envOrgs [orgA, orgB]) Map.empty worldPick = Some (r, w')
       \<and> calls w' = [ListOrgs 50, Say ''Select an org (or press enter to skip):'' [],
                      Say ''%d. %s'' [IntArg 1, StrArg ''org-a''],
                      Say ''%d. %s'' [IntArg 2, StrArg ''org-b''],
                      Ask ''Org'' ''0''] @ rest"
    by (simp add: worldPick_def world0_def maxChoices_def envOrgs_def env0_def orgA_def orgB_def)
  from setOrganization_by_count [OF o l [of "replicate 50 orgA" worldName] refl] k0
  have p3: "\<exists>r w' rest. setOrganization (envOrgs (replicate 50 orgA)) Map.empty worldName = Some (r, w')
       \<and> calls w' = [ListOrgs 50, Say ''Select an org (or press enter to skip):'' [],
                      Say ''There are too many options to display, please type in the name.'' [],
                      Ask ''Org'' ''org-z''] @ rest"
    by (simp add: worldName_def world0_def maxChoices_def envOrgs_def env0_def) blast
  from p0 p1 p2 p3 show ?thesis by blast
qed

section \<open>The authentication loops\<close>

lemma askPasswordKeys_eq:
  "askPasswordKeys d ps keys cr w =
     (askedCredentials keys cr (answers w),
      w\<lparr>answers := sdrop (length keys) (answers w),
        calls := calls w @ secretAsks d ps keys (answers w)\<rparr>)"
  by (induction keys arbitrary: cr w) (simp_all add: ui_defs Let_def)

lemma askedCredentials_other:
  "key \<notin> set keys \<Longrightarrow> askedCredentials keys cr as key = cr key"
  by (induction keys arbitrary: cr as) auto

lemma authenticate_attempt_result:
  assumes "authenticate_attempt d ps keys pw cr w = (err, pw', cr', w')"
  shows "err = fst (shd (outcomes w))"
    and "outcomes w' = stl (outcomes w)"
    and "calls w' = calls w @ passwordAsk d ps pw (answers w)
           @ secretAsks d ps keys (sdrop (length (passwordAsk d ps pw (answers w))) (answers w))
           @ [Say (T d ''Authenticating...'' []) [], Authenticate cr']"
    and "answers w' = sdrop (length (passwordAsk d ps pw (answers w)) + length keys) (answers w)"
    and "pw' = (if map_of ps ''password'' = None then pw else '''')"
    and "''password'' \<notin> set keys \<Longrightarrow> cr' ''password'' =
           (case map_of ps ''password'' of
              Some passPrompt \<Rightarrow> Some (if pw \<noteq> '''' then pw else shd (answers w))
            | None \<Rightarrow> cr ''password'')"
  using assms
  by (auto simp: authenticate_attempt_def passwordAsk_def Authenticate_call_def ui_defs Let_def
        askPasswordKeys_eq askedCredentials_other
        split: prod.splits option.splits if_splits)

lemma filter_isAuthenticate_secretAsks [simp]:
  "filter isAuthenticate (secretAsks d ps keys as) = []"
  by (induction keys arbitrary: as) simp_all

lemma filter_isAuthenticate_passwordAsk [simp]:
  "filter isAuthenticate (passwordAsk d ps pw as) = []"
  by (simp add: passwordAsk_def split: option.splits)

lemma attempts_firstSuccess: "firstSuccess os k \<Longrightarrow> attempts n os = min k n"
proof (induction n arbitrary: os k)
  case 0
  then show ?case by simp
next
  case (Suc n)
  show ?case
  proof (cases "fst (shd os) = None")
    case True
    with Suc.prems have "k = 1"
      by (cases "k - 1") (auto simp: firstSuccess_def)
    with True show ?thesis by simp
  next
    case False
    with Suc.prems obtain k' where k': "k = Suc (Suc k')"
      by (cases k; cases "k - 1") (auto simp: firstSuccess_def)
    with Suc.prems have "firstSuccess (stl os) (Suc k')"
      by (auto simp: firstSuccess_def)
    from Suc.IH [OF this] False k' show ?thesis by auto
  qed
qed

lemma attempts_all_fail: "\<forall>j<n. fst (os !! j) \<noteq> None \<Longrightarrow> attempts n os = n"
proof (induction n arbitrary: os)
  case 0
  then show ?case by simp
next
  case (Suc n)
  from Suc.prems have "fst (shd os) \<noteq> None"
    by (metis snth.simps(1) zero_less_Suc)
  moreover from Suc.prems have "\<forall>j<n. fst (stl os !! j) \<noteq> None"
    by (metis Suc_less_eq snth.simps(2))
  ultimately show ?case using Suc.IH by auto
qed

lemma ex_less_Suc_shift: "(\<exists>j<Suc n. P j) \<longleftrightarrow> P 0 \<or> (\<exists>j<n. P (Suc j))"
  by (metis less_Suc_eq_0_disj Suc_less_eq zero_less_Suc)

lemma authenticate_loop_spec:
  "maxLoginTries - i = n \<Longrightarrow>
   authenticateCalls (calls (snd (authenticate_loop d ps keys i pw cr err w)))
     = authenticateCalls (calls w) + attempts n (outcomes w)
   \<and> (fst (authenticate_loop d ps keys i pw cr err w) = None \<longleftrightarrow>
        (\<exists>j<n. fst (outcomes w !! j) = None) \<or> (maxLoginTries \<le> i \<and> err = None))"
proof (induction n arbitrary: i pw cr err w)
  case 0
  then have "\<not> i < maxLoginTries" by simp
  then show ?case
    by (subst (1 2) authenticate_loop.simps) simp
next
  case (Suc n)
  then have i: "i < maxLoginTries" and n: "maxLoginTries - Suc i = n" by simp_all
  obtain e pw' cr' w' where a: "authenticate_attempt d ps keys pw cr w = (e, pw', cr', w')"
    by (metis prod.exhaust)
  note r = authenticate_attempt_result [OF a]
  have c: "authenticateCalls (calls w') = Suc (authenticateCalls (calls w))"
    by (simp add: r(3) authenticateCalls_def)
  show ?case
  proof (cases e)
    case None
    with i a have "authenticate_loop d ps keys i pw cr err w = (None, ui_Say '''' [] (ui_Ok w'))"
      by (subst authenticate_loop.simps) simp
    moreover from None r(1) have "fst (shd (outcomes w)) = None" by simp
    ultimately show ?thesis using c
      by (auto simp: ui_defs authenticateCalls_def ex_less_Suc_shift)
  next
    case (Some x)
    with i a have l: "authenticate_loop d ps keys i pw cr err w =
        authenticate_loop d ps keys (Suc i) pw' cr' (Some x) (ui_Say (Error x) [] w')"
      by (subst authenticate_loop.simps) simp
    from Some r(1) have f: "fst (shd (outcomes w)) \<noteq> None" by simp
    have o: "outcomes (ui_Say (Error x) [] w') = stl (outcomes w)"
      by (simp add: ui_defs r(2))
    have c': "authenticateCalls (calls (ui_Say (Error x) [] w')) = Suc (authenticateCalls (calls w))"
      using c by (simp add: ui_defs authenticateCalls_def)
    from Suc.IH [OF n, of pw' cr' "Some x" "ui_Say (Error x) [] w'"] f i
    show ?thesis
      unfolding l o c' by (auto simp: ex_less_Suc_shift)
  qed
qed

lemma Authenticate_call_eq:
  "Authenticate_call cr w =
     (fst (shd (outcomes w)),
      w\<lparr>outcomes := stl (outcomes w), config := snd (shd (outcomes w)) (config w),
        calls := calls w @ [Authenticate cr]\<rparr>)"
  by (simp add: Authenticate_call_def ui_defs split: prod.splits)

lemma ssoPasscode_world:
  "outcomes (snd (ssoPasscode c p i w)) = outcomes w"
  "filter isAuthenticate (calls (snd (ssoPasscode c p i w))) = filter isAuthenticate (calls w)"
  by (simp_all add: ssoPasscode_def ui_defs Let_def)

lemma authenticateSSO_loop_step:
  assumes "i < maxLoginTries"
  shows "authenticateSSO_loop d c p i cr err w =
        (let cr' = cr(''passcode'' \<mapsto> fst (ssoPasscode c p i w));
             w' = snd (Authenticate_call cr'
                    (ui_Say (T d ''Authenticating...'' []) [] (snd (ssoPasscode c p i w))))
         in case fst (shd (outcomes w)) of
           None \<Rightarrow> (None, ui_Say '''' [] (ui_Ok w'))
         | Some e \<Rightarrow> authenticateSSO_loop d c p (Suc i) cr' (Some e) (ui_Say (Error e) [] w'))"
  using assms
  by (subst authenticateSSO_loop.simps)
     (simp add: Authenticate_call_eq ssoPasscode_def ui_defs Let_def
           split: option.splits prod.splits)

lemma authenticateSSO_loop_spec:
  "maxLoginTries - i = n \<Longrightarrow>
   authenticateCalls (calls (snd (authenticateSSO_loop d c p i cr err w)))
     = authenticateCalls (calls w) + attempts n (outcomes w)
   \<and> (fst (authenticateSSO_loop d c p i cr err w) = None \<longleftrightarrow>
        (\<exists>j<n. fst (outcomes w !! j) = None) \<or> (maxLoginTries \<le> i \<and> err = None))"
proof (induction n arbitrary: i cr err w)
  case 0
  then have "\<not> i < maxLoginTries" by simp
  then show ?case
    by (subst (1 2) authenticateSSO_loop.simps) simp
next
  case (Suc n)
  then have i: "i < maxLoginTries" and n: "maxLoginTries - Suc i = n" by simp_all
  define cr' where "cr' = cr(''passcode'' \<mapsto> fst (ssoPasscode c p i w))"
  define w' where "w' = snd (Authenticate_call cr'
                    (ui_Say (T d ''Authenticating...'' []) [] (snd (ssoPasscode c p i w))))"
  have o: "outcomes w' = stl (outcomes w)"
    by (simp add: w'_def Authenticate_call_eq ui_defs ssoPasscode_world)
  have c: "authenticateCalls (calls w') = Suc (authenticateCalls (calls w))"
    by (simp add: w'_def Authenticate_call_eq ui_defs ssoPasscode_world authenticateCalls_def)
  have l: "authenticateSSO_loop d c p i cr err w =
        (case fst (shd (outcomes w)) of
           None \<Rightarrow> (None, ui_Say '''' [] (ui_Ok w'))
         | Some e \<Rightarrow> authenticateSSO_loop d c p (Suc i) cr' (Some e) (ui_Say (Error e) [] w'))"
    unfolding cr'_def w'_def by (simp add: authenticateSSO_loop_step [OF i] Let_def)
  show ?case
  proof (cases "fst (shd (outcomes w))")
    case None
    with l c show ?thesis
      by (auto simp: ui_defs authenticateCalls_def ex_less_Suc_shift)
  next
    case (Some x)
    with l have l': "authenticateSSO_loop d c p i cr err w =
        authenticateSSO_loop d c p (Suc i) cr' (Some x) (ui_Say (Error x) [] w')"
      by simp
    have o': "outcomes (ui_Say (Error x) [] w') = stl (outcomes w)"
      by (simp add: ui_defs o)
    have c': "authenticateCalls (calls (ui_Say (Error x) [] w')) = Suc (authenticateCalls (calls w))"
      using c by (simp add: ui_defs authenticateCalls_def)
    from Suc.IH [OF n, of cr' "Some x" "ui_Say (Error x) [] w'"] Some i
    show ?thesis
      unfolding l' o' c' by (auto simp: ex_less_Suc_shift)
  qed
qed

lemma collectPrompts_result:
  "collectPrompts d ps keys cr w = (keys', cr', w') \<Longrightarrow>
     keys' = keys @ otherSecretKeys ps \<and> outcomes w' = outcomes w
     \<and> (\<exists>pre. calls w' = calls w @ pre \<and> (\<forall>e\<in>set pre. isStatic e))"
proof (induction d ps keys cr w arbitrary: keys' cr' w' rule: collectPrompts.induct)
  case (1 d passwordKeys credentials w)
  then show ?case by (simp add: otherSecretKeys_def)
next
  case (2 d key prompt rest passwordKeys credentials w)
  show ?case
  proof (cases "prompt_Type prompt = AuthPromptTypePassword")
    case True
    with 2 show ?thesis
      by (auto simp: otherSecretKeys_def split: if_splits)
  next
    case False
    show ?thesis
    proof (cases "key = ''username''")
      case True
      with False 2 show ?thesis
        by (auto simp: otherSecretKeys_def)
    next
      case u: False
      obtain a w1 where ask: "ui_Ask (T d (prompt_DisplayName prompt) []) w = (a, w1)"
        by (metis prod.exhaust)
      then have w1: "outcomes w1 = outcomes w"
        "calls w1 = calls w @ [Ask (T d (prompt_DisplayName prompt) []) a]"
        by (auto simp: ui_defs Let_def)
      from "2.prems" False u ask
      have "collectPrompts d rest passwordKeys (credentials(key \<mapsto> a)) w1 = (keys', cr', w')"
        by simp
      from "2.IH"(4) [OF False u refl ask [symmetric] this] w1 False
      show ?thesis
        by (auto simp: otherSecretKeys_def)
    qed
  qed
qed

lemma authenticate_enters_loop:
  assumes g: "UAAGrantType (config w) \<noteq> ''client_credentials''"
    and p: "fst (authenticator_GetLoginPrompts d (config w)) = Inr ps"
  obtains cr w3 pre where
    "authenticate d c w =
       (case authenticate_loop d ps (otherSecretKeys ps) 0 (String c ''p'') cr None w3 of
          (err, w4) \<Rightarrow>
            (if err \<noteq> None then Some (ErrorString (T d ''Unable to authenticate.'' [])) else None, w4))"
    and "outcomes w3 = outcomes w"
    and "calls w3 = calls w @ pre"
    and "\<forall>e\<in>set pre. isStatic e"
proof -
  define w1 where "w1 = snd (GetLoginPromptsAndSaveUAAServerURL d w)"
  have g1: "GetLoginPromptsAndSaveUAAServerURL d w = (Inr ps, w1)"
    using p by (auto simp: w1_def GetLoginPromptsAndSaveUAAServerURL_def split: prod.splits)
  have w1: "outcomes w1 = outcomes w" "calls w1 = calls w @ [GetLoginPrompts]"
    by (simp_all add: w1_def GetLoginPromptsAndSaveUAAServerURL_def ui_defs split: prod.splits)
  define u where "u =
     (case map_of ps ''username'' of
        Some value \<Rightarrow>
          (if prompt_Type (lookupPrompt ps ''username'') = AuthPromptTypeText \<and> String c ''u'' \<noteq> ''''
           then (Map.empty(''username'' \<mapsto> String c ''u''), w1)
           else (let (a, w) = ui_Ask (T d (prompt_DisplayName value) []) w1
                 in (Map.empty(''username'' \<mapsto> a), w)))
      | None \<Rightarrow> (Map.empty, w1))"
  have u: "outcomes (snd u) = outcomes w"
    "\<exists>pre. calls (snd u) = calls w @ pre \<and> (\<forall>e\<in>set pre. isStatic e)"
    by (auto simp: u_def w1 ui_defs Let_def split: option.splits)
  obtain keys cr w3 where cp: "collectPrompts d ps [] (fst u) (snd u) = (keys, cr, w3)"
    by (metis prod.exhaust)
  from collectPrompts_result [OF cp] u
  have keys: "keys = otherSecretKeys ps" and o3: "outcomes w3 = outcomes w"
    and "\<exists>pre. calls w3 = calls w @ pre \<and> (\<forall>e\<in>set pre. isStatic e)"
    by auto
  then obtain pre where pre: "calls w3 = calls w @ pre" "\<forall>e\<in>set pre. isStatic e"
    by blast
  have "authenticate d c w =
       (case authenticate_loop d ps (otherSecretKeys ps) 0 (String c ''p'') cr None w3 of
          (err, w4) \<Rightarrow>
            (if err \<noteq> None then Some (ErrorString (T d ''Unable to authenticate.'' [])) else None, w4))"
    using g g1 cp
    by (simp add: authenticate_def Let_def u_def [symmetric] keys [symmetric] split_beta
             split: prod.splits)
  from this o3 pre show thesis by (rule that)
qed

lemma static_no_authenticate:
  "\<forall>e\<in>set pre. isStatic e \<Longrightarrow> filter isAuthenticate pre = []"
proof (induction pre)
  case Nil
  then show ?case by simp
next
  case (Cons e pre)
  then show ?case by (cases e) simp_all
qed

lemma authenticateSSO_enters_loop:
  assumes p: "fst (authenticator_GetLoginPrompts d (config w)) = Inr ps"
  obtains passcode w1 where
    "authenticateSSO d c w =
       (case authenticateSSO_loop d c passcode 0 Map.empty None w1 of
          (err, w4) \<Rightarrow>
            (if err \<noteq> None then Some (ErrorString (T d ''Unable to authenticate.'' [])) else None, w4))"
    and "outcomes w1 = outcomes w"
    and "calls w1 = calls w @ [GetLoginPrompts]"
proof -
  define w1 where "w1 = snd (GetLoginPromptsAndSaveUAAServerURL d w)"
  have g1: "GetLoginPromptsAndSaveUAAServerURL d w = (Inr ps, w1)"
    using p by (auto simp: w1_def GetLoginPromptsAndSaveUAAServerURL_def split: prod.splits)
  have w1: "outcomes w1 = outcomes w" "calls w1 = calls w @ [GetLoginPrompts]"
    by (simp_all add: w1_def GetLoginPromptsAndSaveUAAServerURL_def ui_defs split: prod.splits)
  define passcode where "passcode =
     (if prompt_DisplayName (lookupPrompt ps ''passcode'') = '''' then
        \<lparr>prompt_Type = AuthPromptTypePassword,
         prompt_DisplayName =
           T d ''Temporary Authentication Code ( Get one at {{.AuthenticationEndpoint}}/passcode )''
             [(''AuthenticationEndpoint'', AuthenticationEndpoint (config w1))]\<rparr>
      else lookupPrompt ps ''passcode'')"
  have "authenticateSSO d c w =
       (case authenticateSSO_loop d c passcode 0 Map.empty None w1 of
          (err, w4) \<Rightarrow>
            (if err \<noteq> None then Some (ErrorString (T d ''Unable to authenticate.'' [])) else None, w4))"
    using g1 by (simp add: authenticateSSO_def Let_def passcode_def split: prod.splits)
  from this w1 show thesis by (rule that)
qed

text \<open>
  C4.  Once the prompts have been fetched (and, in the password flow, no service account
  is logged in), either flow calls \<open>Authenticate\<close> exactly \<open>min k 3\<close> times when the
  authenticator first succeeds at its \<open>k\<close>-th call, and then returns no error if
  \<open>k \<le> 3\<close>.  When the first three calls fail there are exactly three calls and the error
  returned is the fixed text \<^verbatim>\<open>Unable to authenticate.\<close>, whatever the errors of the
  authenticator were.
\<close>

theorem authentication_attempts:
  assumes p: "fst (authenticator_GetLoginPrompts d (config w)) = Inr ps"
  shows "(UAAGrantType (config w) \<noteq> ''client_credentials'' \<longrightarrow>
          (\<forall>k. firstSuccess (outcomes w) k \<longrightarrow>
             authenticateCalls (calls (snd (authenticate d c w)))
               = authenticateCalls (calls w) + min k 3
             \<and> (k \<le> 3 \<longrightarrow> fst (authenticate d c w) = None))
          \<and> ((\<forall>j<3. fst (outcomes w !! j) \<noteq> None) \<longrightarrow>
             authenticateCalls (calls (snd (authenticate d c w))) = authenticateCalls (calls w) + 3
             \<and> fst (authenticate d c w) = Some (ErrorString (T d ''Unable to authenticate.'' []))))
       \<and> (\<forall>k. firstSuccess (outcomes w) k \<longrightarrow>
             authenticateCalls (calls (snd (authenticateSSO d c w)))
               = authenticateCalls (calls w) + min k 3
             \<and> (k \<le> 3 \<longrightarrow> fst (authenticateSSO d c w) = None))
       \<and> ((\<forall>j<3. fst (outcomes w !! j) \<noteq> None) \<longrightarrow>
             authenticateCalls (calls (snd (authenticateSSO d c w))) = authenticateCalls (calls w) + 3
             \<and> fst (authenticateSSO d c w) = Some (ErrorString (T d ''Unable to authenticate.'' [])))"
proof -
  have m: "maxLoginTries - 0 = 3" by (simp add: maxLoginTries_def)
  have success: "\<exists>j<3. fst (outcomes w !! j) = None" if "firstSuccess (outcomes w) k" "k \<le> 3" for k
  proof -
    from that have "k - 1 < 3" "fst (outcomes w !! (k - 1)) = None"
      by (auto simp: firstSuccess_def)
    then show ?thesis by blast
  qed
  have password: "(\<forall>k. firstSuccess (outcomes w) k \<longrightarrow>
             authenticateCalls (calls (snd (authenticate d c w)))
               = authenticateCalls (calls w) + min k 3
             \<and> (k \<le> 3 \<longrightarrow> fst (authenticate d c w) = None))
          \<and> ((\<forall>j<3. fst (outcomes w !! j) \<noteq> None) \<longrightarrow>
             authenticateCalls (calls (snd (authenticate d c w))) = authenticateCalls (calls w) + 3
             \<and> fst (authenticate d c w) = Some (ErrorString (T d ''Unable to authenticate.'' [])))"
    if g: "UAAGrantType (config w) \<noteq> ''client_credentials''"
  proof -
    from g p obtain cr w3 pre where
      a: "authenticate d c w =
       (case authenticate_loop d ps (otherSecretKeys ps) 0 (String c ''p'') cr None w3 of
          (err, w4) \<Rightarrow>
            (if err \<noteq> None then Some (ErrorString (T d ''Unable to authenticate.'' [])) else None, w4))"
      and o: "outcomes w3 = outcomes w"
      and c: "calls w3 = calls w @ pre" "\<forall>e\<in>set pre. isStatic e"
      by (rule authenticate_enters_loop)
    define L where "L = authenticate_loop d ps (otherSecretKeys ps) 0 (String c ''p'') cr None w3"
    from c have c3: "authenticateCalls (calls w3) = authenticateCalls (calls w)"
      by (simp add: authenticateCalls_def static_no_authenticate)
    from authenticate_loop_spec [OF m, of d ps "otherSecretKeys ps" "String c ''p''" cr None w3]
    have n: "authenticateCalls (calls (snd L)) = authenticateCalls (calls w) + attempts 3 (outcomes w)"
      and r: "fst L = None \<longleftrightarrow> (\<exists>j<3. fst (outcomes w !! j) = None)"
      by (simp_all add: L_def o c3 maxLoginTries_def)
    from a have s: "snd (authenticate d c w) = snd L"
      and f: "fst (authenticate d c w) =
           (if fst L \<noteq> None then Some (ErrorString (T d ''Unable to authenticate.'' [])) else None)"
      by (simp_all add: L_def split: prod.splits)
    show ?thesis
      using n r success
      by (auto simp: s f attempts_firstSuccess attempts_all_fail)
  qed
  have sso: "(\<forall>k. firstSuccess (outcomes w) k \<longrightarrow>
             authenticateCalls (calls (snd (authenticateSSO d c w)))
               = authenticateCalls (calls w) + min k 3
             \<and> (k \<le> 3 \<longrightarrow> fst (authenticateSSO d c w) = None))
       \<and> ((\<forall>j<3. fst (outcomes w !! j) \<noteq> None) \<longrightarrow>
             authenticateCalls (calls (snd (authenticateSSO d c w))) = authenticateCalls (calls w) + 3
             \<and> fst (authenticateSSO d c w) = Some (ErrorString (T d ''Unable to authenticate.'' [])))"
  proof -
    from p obtain passcode w1 where
      a: "authenticateSSO d c w =
       (case authenticateSSO_loop d c passcode 0 Map.empty None w1 of
          (err, w4) \<Rightarrow>
            (if err \<noteq> None then Some (ErrorString (T d ''Unable to authenticate.'' [])) else None, w4))"
      and o: "outcomes w1 = outcomes w"
      and c: "calls w1 = calls w @ [GetLoginPrompts]"
      by (rule authenticateSSO_enters_loop)
    define L where "L = authenticateSSO_loop d c passcode 0 Map.empty None w1"
    from c have c3: "authenticateCalls (calls w1) = authenticateCalls (calls w)"
      by (simp add: authenticateCalls_def)
    from authenticateSSO_loop_spec [OF m, of d c passcode Map.empty None w1]
    have n: "authenticateCalls (calls (snd L)) = authenticateCalls (calls w) + attempts 3 (outcomes w)"
      and r: "fst L = None \<longleftrightarrow> (\<exists>j<3. fst (outcomes w !! j) = None)"
      by (simp_all add: L_def o c3 maxLoginTries_def)
    from a have s: "snd (authenticateSSO d c w) = snd L"
      and f: "fst (authenticateSSO d c w) =
           (if fst L \<noteq> None then Some (ErrorString (T d ''Unable to authenticate.'' [])) else None)"
      by (simp_all add: L_def split: prod.splits)
    show ?thesis
      using n r success
      by (auto simp: s f attempts_firstSuccess attempts_all_fail)
  qed
  from password sso show ?thesis by blast
qed

theorem authentication_attempts_witness:
  "firstSuccess (outcomes worldRetry) 2
   \<and> authenticateCalls (calls worldRetry) = 0
   \<and> authenticateCalls (calls (snd (authenticate envPrompts flags_p worldRetry))) = 2
   \<and> fst (authenticate envPrompts flags_p worldRetry) = None
   \<and> authenticateCalls (calls (snd (authenticateSSO envPrompts flags_p worldRetry))) = 2
   \<and> fst (authenticateSSO envPrompts flags_p worldRetry) = None
   \<and> authenticateCalls (calls (snd (authenticate envPrompts flags_p worldRejected))) = 3
   \<and> fst (authenticate envPrompts flags_p worldRejected) = Some (ErrorString ''Unable to authenticate.'')
   \<and> authenticateCalls (calls (snd (authenticateSSO envPrompts flags_p worldRejected))) = 3
   \<and> fst (authenticateSSO envPrompts flags_p worldRejected) = Some (ErrorString ''Unable to authenticate.'')"
proof -
  have p: "fst (authenticator_GetLoginPrompts envPrompts (config w)) = Inr promptsMFA" for w
    by (simp add: envPrompts_def)
  have g: "UAAGrantType (config worldRetry) \<noteq> ''client_credentials''"
    "UAAGrantType (config worldRejected) \<noteq> ''client_credentials''"
    by (simp_all add: worldRetry_def worldRejected_def world0_def config0_def)
  have k: "firstSuccess (outcomes worldRetry) 2"
    by (simp add: firstSuccess_def worldRetry_def)
  have f: "\<forall>j<3. fst (outcomes worldRejected !! j) \<noteq> None"
    by (simp add: worldRejected_def)
  have c: "authenticateCalls (calls worldRetry) = 0" "authenticateCalls (calls worldRejected) = 0"
    by (simp_all add: authenticateCalls_def worldRetry_def worldRejected_def world0_def)
  have t: "T envPrompts ''Unable to authenticate.'' [] = ''Unable to authenticate.''"
    by (simp add: envPrompts_def env0_def)
  from authentication_attempts [OF p, of worldRetry flags_p]
       authentication_attempts [OF p, of worldRejected flags_p] g k f c t
  show ?thesis by auto
qed

section \<open>The password and the other secrets in the password flow\<close>

lemma splitAttempts_no_authenticate:
  "filter isAuthenticate xs = [] \<Longrightarrow> splitAttempts acc (xs @ ys) = splitAttempts (acc @ xs) ys"
proof (induction xs arbitrary: acc)
  case Nil
  then show ?case by simp
next
  case (Cons e xs)
  then show ?case by (cases e) (simp_all split: if_splits)
qed

lemma splitAttempts_none:
  "filter isAuthenticate xs = [] \<Longrightarrow> splitAttempts acc xs = []"
proof (induction xs arbitrary: acc)
  case Nil
  then show ?case by simp
next
  case (Cons e xs)
  then show ?case by (cases e) (simp_all split: if_splits)
qed

lemma secretsAsked_append [simp]: "secretsAsked (xs @ ys) = secretsAsked xs @ secretsAsked ys"
proof (induction xs)
  case Nil
  then show ?case by simp
next
  case (Cons e xs)
  then show ?case by (cases e) simp_all
qed

lemma secretsAsked_secretAsks:
  "map fst (secretsAsked (secretAsks d ps keys as)) =
     map (\<lambda>key. T d (prompt_DisplayName (lookupPrompt ps key)) []) keys"
  by (induction keys arbitrary: as) simp_all

lemma secretsAsked_static: "\<forall>e\<in>set pre. isStatic e \<Longrightarrow> secretsAsked pre = []"
proof (induction pre)
  case Nil
  then show ?case by simp
next
  case (Cons e pre)
  then show ?case by (cases e) simp_all
qed

lemma password_not_other: "''password'' \<notin> set (otherSecretKeys ps)"
  by (auto simp: otherSecretKeys_def)

lemma attempt_segment:
  assumes a: "authenticate_attempt d ps (otherSecretKeys ps) pw cr w = (e, pw', cr', w')"
    and pp: "map_of ps ''password'' = Some passPrompt"
  obtains seg where "calls w' = calls w @ seg @ [Authenticate cr']"
    and "filter isAuthenticate seg = []"
    and "pw' = ''''"
    and "outcomes w' = stl (outcomes w)"
    and "pw \<noteq> '''' \<Longrightarrow> cr' ''password'' = Some pw \<and> map fst (secretsAsked seg) = otherLabels d ps"
    and "pw = '''' \<Longrightarrow> (\<forall>acc. secretsAsked acc = [] \<longrightarrow> passwordFirst d ps passPrompt (acc @ seg, cr'))"
proof -
  note r = authenticate_attempt_result [OF a]
  define seg where "seg = passwordAsk d ps pw (answers w)
           @ secretAsks d ps (otherSecretKeys ps)
               (sdrop (length (passwordAsk d ps pw (answers w))) (answers w))
           @ [Say (T d ''Authenticating...'' []) []]"
  have 1: "calls w' = calls w @ seg @ [Authenticate cr']"
    by (simp add: r(3) seg_def)
  have 2: "filter isAuthenticate seg = []"
    by (simp add: seg_def)
  have 3: "pw' = ''''"
    using r(5) pp by simp
  have 5: "cr' ''password'' = Some pw \<and> map fst (secretsAsked seg) = otherLabels d ps" if "pw \<noteq> ''''"
    using that r(6) [OF password_not_other] pp
    by (simp add: seg_def passwordAsk_def secretsAsked_secretAsks otherLabels_def)
  have 6: "\<forall>acc. secretsAsked acc = [] \<longrightarrow> passwordFirst d ps passPrompt (acc @ seg, cr')" if "pw = ''''"
    using that r(6) [OF password_not_other] pp
    by (simp add: seg_def passwordAsk_def secretsAsked_secretAsks otherLabels_def passwordFirst_def)
  from 1 2 3 r(2) 5 6 show thesis by (rule that)
qed

lemma authenticate_loop_later:
  assumes pp: "map_of ps ''password'' = Some passPrompt"
  shows "maxLoginTries - i = n \<Longrightarrow>
    \<exists>ext. calls (snd (authenticate_loop d ps (otherSecretKeys ps) i '''' cr err w)) = calls w @ ext
       \<and> (\<forall>acc. secretsAsked acc = [] \<longrightarrow>
             (\<forall>x\<in>set (splitAttempts acc ext). passwordFirst d ps passPrompt x))"
proof (induction n arbitrary: i cr err w)
  case 0
  then have "\<not> i < maxLoginTries" by simp
  then have "authenticate_loop d ps (otherSecretKeys ps) i '''' cr err w = (err, w)"
    by (subst authenticate_loop.simps) simp
  then show ?case by simp
next
  case (Suc n)
  then have i: "i < maxLoginTries" and n: "maxLoginTries - Suc i = n" by simp_all
  obtain e pw' cr' w' where a: "authenticate_attempt d ps (otherSecretKeys ps) '''' cr w = (e, pw', cr', w')"
    by (metis prod.exhaust)
  from a pp obtain seg where c: "calls w' = calls w @ seg @ [Authenticate cr']"
    and na: "filter isAuthenticate seg = []"
    and pw': "pw' = ''''"
    and first: "\<forall>acc. secretsAsked acc = [] \<longrightarrow> passwordFirst d ps passPrompt (acc @ seg, cr')"
    by (rule attempt_segment) simp
  show ?case
  proof (cases e)
    case None
    with i a have l: "authenticate_loop d ps (otherSecretKeys ps) i '''' cr err w
         = (None, ui_Say '''' [] (ui_Ok w'))"
      by (subst authenticate_loop.simps) simp
    have "calls (snd (authenticate_loop d ps (otherSecretKeys ps) i '''' cr err w))
         = calls w @ (seg @ Authenticate cr' # [Ok, Say '''' []])"
      by (simp add: l ui_defs c)
    moreover have "\<forall>acc. secretsAsked acc = [] \<longrightarrow>
        (\<forall>x\<in>set (splitAttempts acc (seg @ Authenticate cr' # [Ok, Say '''' []])).
            passwordFirst d ps passPrompt x)"
      using first by (simp add: splitAttempts_no_authenticate [OF na])
    ultimately show ?thesis by blast
  next
    case (Some x)
    with i a pw' have l: "authenticate_loop d ps (otherSecretKeys ps) i '''' cr err w =
        authenticate_loop d ps (otherSecretKeys ps) (Suc i) '''' cr' (Some x) (ui_Say (Error x) [] w')"
      by (subst authenticate_loop.simps) simp
    from Suc.IH [OF n, of cr' "Some x" "ui_Say (Error x) [] w'"]
    obtain ext where e: "calls (snd (authenticate_loop d ps (otherSecretKeys ps) (Suc i) '''' cr' (Some x)
          (ui_Say (Error x) [] w'))) = calls (ui_Say (Error x) [] w') @ ext"
      and later: "\<forall>acc. secretsAsked acc = [] \<longrightarrow>
             (\<forall>x\<in>set (splitAttempts acc ext). passwordFirst d ps passPrompt x)"
      by blast
    have "calls (snd (authenticate_loop d ps (otherSecretKeys ps) i '''' cr err w))
         = calls w @ (seg @ Authenticate cr' # Say (Error x) [] # ext)"
      unfolding l e by (simp add: ui_defs c)
    moreover have "\<forall>acc. secretsAsked acc = [] \<longrightarrow>
        (\<forall>y\<in>set (splitAttempts acc (seg @ Authenticate cr' # Say (Error x) [] # ext)).
            passwordFirst d ps passPrompt y)"
      using first later [rule_format, of "[Say (Error x) []]"]
      by (simp add: splitAttempts_no_authenticate [OF na])
    ultimately show ?thesis by blast
  qed
qed

lemma authenticate_loop_first:
  assumes pp: "map_of ps ''password'' = Some passPrompt"
    and pw: "pw \<noteq> ''''"
    and i: "i < maxLoginTries"
  shows "\<exists>seg cr1 ext. calls (snd (authenticate_loop d ps (otherSecretKeys ps) i pw cr err w))
           = calls w @ seg @ Authenticate cr1 # ext
       \<and> filter isAuthenticate seg = []
       \<and> cr1 ''password'' = Some pw
       \<and> map fst (secretsAsked seg) = otherLabels d ps
       \<and> (\<forall>x\<in>set (splitAttempts [] ext). passwordFirst d ps passPrompt x)"
proof -
  obtain e pw' cr' w' where a: "authenticate_attempt d ps (otherSecretKeys ps) pw cr w = (e, pw', cr', w')"
    by (metis prod.exhaust)
  from a pp obtain seg where c: "calls w' = calls w @ seg @ [Authenticate cr']"
    and na: "filter isAuthenticate seg = []"
    and pw': "pw' = ''''"
    and first: "cr' ''password'' = Some pw \<and> map fst (secretsAsked seg) = otherLabels d ps"
    by (rule attempt_segment) (use pw in simp)
  show ?thesis
  proof (cases e)
    case None
    with i a have l: "authenticate_loop d ps (otherSecretKeys ps) i pw cr err w
         = (None, ui_Say '''' [] (ui_Ok w'))"
      by (subst authenticate_loop.simps) simp
    have "calls (snd (authenticate_loop d ps (otherSecretKeys ps) i pw cr err w))
         = calls w @ seg @ Authenticate cr' # [Ok, Say '''' []]"
      by (simp add: l ui_defs c)
    with na first show ?thesis
      by (intro exI [of _ seg] exI [of _ cr'] exI [of _ "[Ok, Say '''' []]"]) simp
  next
    case (Some x)
    with i a pw' have l: "authenticate_loop d ps (otherSecretKeys ps) i pw cr err w =
        authenticate_loop d ps (otherSecretKeys ps) (Suc i) '''' cr' (Some x) (ui_Say (Error x) [] w')"
      by (subst authenticate_loop.simps) simp
    from authenticate_loop_later [OF pp refl, where i = "Suc i" and d = d and cr = cr'
           and err = "Some x" and w = "ui_Say (Error x) [] w'"]
    obtain ext where e: "calls (snd (authenticate_loop d ps (otherSecretKeys ps) (Suc i) '''' cr' (Some x)
          (ui_Say (Error x) [] w'))) = calls (ui_Say (Error x) [] w') @ ext"
      and later: "\<forall>acc. secretsAsked acc = [] \<longrightarrow>
             (\<forall>x\<in>set (splitAttempts acc ext). passwordFirst d ps passPrompt x)"
      by blast
    have "calls (snd (authenticate_loop d ps (otherSecretKeys ps) i pw cr err w))
         = calls w @ seg @ Authenticate cr' # (Say (Error x) [] # ext)"
      unfolding l e by (simp add: ui_defs c)
    moreover have "\<forall>y\<in>set (splitAttempts [] (Say (Error x) [] # ext)). passwordFirst d ps passPrompt y"
      using later [rule_format, of "[Say (Error x) []]"] by simp
    ultimately show ?thesis
      using na first
      by (intro exI [of _ seg] exI [of _ cr'] exI [of _ "Say (Error x) [] # ext"]) simp
  qed
qed

lemma passwordFirst_iff:
  "passwordFirst d ps passPrompt (seg, cr) \<longleftrightarrow>
     (\<exists>a rest. secretsAsked seg = (T d (prompt_DisplayName passPrompt) [], a) # rest
        \<and> cr ''password'' = Some a \<and> map fst rest = otherLabels d ps)"
  by (auto simp: passwordFirst_def split: list.splits)

lemma passwordFirst_order:
  "passwordFirst d ps passPrompt (seg, cr) \<Longrightarrow>
     map fst (secretsAsked seg) = T d (prompt_DisplayName passPrompt) [] # otherLabels d ps"
  by (auto simp: passwordFirst_iff)

lemma authenticate_new_calls:
  assumes g: "UAAGrantType (config w) \<noteq> ''client_credentials''"
    and p: "fst (authenticator_GetLoginPrompts d (config w)) = Inr ps"
  obtains cr w3 pre where
    "snd (authenticate d c w)
       = snd (authenticate_loop d ps (otherSecretKeys ps) 0 (String c ''p'') cr None w3)"
    and "calls w3 = calls w @ pre"
    and "filter isAuthenticate pre = []"
    and "secretsAsked pre = []"
proof -
  from g p obtain cr w3 pre where
    a: "authenticate d c w =
       (case authenticate_loop d ps (otherSecretKeys ps) 0 (String c ''p'') cr None w3 of
          (err, w4) \<Rightarrow>
            (if err \<noteq> None then Some (ErrorString (T d ''Unable to authenticate.'' [])) else None, w4))"
    and c: "calls w3 = calls w @ pre" "\<forall>e\<in>set pre. isStatic e"
    by (rule authenticate_enters_loop)
  from a have "snd (authenticate d c w)
       = snd (authenticate_loop d ps (otherSecretKeys ps) 0 (String c ''p'') cr None w3)"
    by (simp split: prod.splits)
  with c show thesis
    by (intro that [of cr w3 pre]) (simp_all add: static_no_authenticate secretsAsked_static)
qed

text \<open>
  C5.  With a \<open>password\<close> prompt in the catalog and a non-empty \<open>-p\<close> value, the password
  flow makes at least one attempt; the first attempt passes the flag value as the
  \<open>password\<close> credential and asks only for the other secrets; every later attempt asks
  for the password first, as a secret, and passes what the user typed.
\<close>

theorem password_override_used_once:
  assumes g: "UAAGrantType (config w) \<noteq> ''client_credentials''"
    and p: "fst (authenticator_GetLoginPrompts d (config w)) = Inr ps"
    and pp: "map_of ps ''password'' = Some passPrompt"
    and pw: "String c ''p'' \<noteq> ''''"
  shows "\<exists>seg cr later.
       attemptsOf (drop (length (calls w)) (calls (snd (authenticate d c w)))) = (seg, cr) # later
     \<and> cr ''password'' = Some (String c ''p'')
     \<and> map fst (secretsAsked seg) = otherLabels d ps
     \<and> (\<forall>(seg', cr')\<in>set later. \<exists>a rest.
            secretsAsked seg' = (T d (prompt_DisplayName passPrompt) [], a) # rest
          \<and> cr' ''password'' = Some a
          \<and> map fst rest = otherLabels d ps)"
proof -
  from g p obtain cr0 w3 pre where
    s: "snd (authenticate d c w)
       = snd (authenticate_loop d ps (otherSecretKeys ps) 0 (String c ''p'') cr0 None w3)"
    and c: "calls w3 = calls w @ pre"
    and na: "filter isAuthenticate pre = []"
    and ns: "secretsAsked pre = []"
    by (rule authenticate_new_calls)
  have "0 < maxLoginTries" by (simp add: maxLoginTries_def)
  from authenticate_loop_first [OF pp pw this, of d cr0 None w3]
  obtain seg cr1 ext where
    l: "calls (snd (authenticate_loop d ps (otherSecretKeys ps) 0 (String c ''p'') cr0 None w3))
           = calls w3 @ seg @ Authenticate cr1 # ext"
    and na': "filter isAuthenticate seg = []"
    and cr1: "cr1 ''password'' = Some (String c ''p'')"
    and seg: "map fst (secretsAsked seg) = otherLabels d ps"
    and later: "\<forall>x\<in>set (splitAttempts [] ext). passwordFirst d ps passPrompt x"
    by blast
  have new: "drop (length (calls w)) (calls (snd (authenticate d c w)))
       = (pre @ seg) @ Authenticate cr1 # ext"
    by (simp add: s l c)
  have "filter isAuthenticate (pre @ seg) = []"
    using na na' by simp
  then have atts: "attemptsOf (drop (length (calls w)) (calls (snd (authenticate d c w))))
       = (pre @ seg, cr1) # splitAttempts [] ext"
    unfolding new attemptsOf_def by (simp add: splitAttempts_no_authenticate)
  have "\<forall>(seg', cr')\<in>set (splitAttempts [] ext). \<exists>a rest.
            secretsAsked seg' = (T d (prompt_DisplayName passPrompt) [], a) # rest
          \<and> cr' ''password'' = Some a
          \<and> map fst rest = otherLabels d ps"
    using later by (fastforce simp: passwordFirst_iff)
  with atts cr1 seg ns show ?thesis
    by (intro exI [of _ "pre @ seg"] exI [of _ cr1] exI [of _ "splitAttempts [] ext"]) simp
qed

text \<open>
  C9 (amended).  With a \<open>password\<close> prompt in the catalog, every attempt that asks for
  the password asks for it before all the other secrets of that attempt.  Without a
  \<open>-p\<close> value that is every attempt; with one it is every attempt but the first, which
  asks for the other secrets only.
\<close>

theorem password_asked_first:
  assumes g: "UAAGrantType (config w) \<noteq> ''client_credentials''"
    and p: "fst (authenticator_GetLoginPrompts d (config w)) = Inr ps"
    and pp: "map_of ps ''password'' = Some passPrompt"
  shows "(String c ''p'' = '''' \<longrightarrow>
          (\<forall>(seg, cr)\<in>set (attemptsOf (drop (length (calls w)) (calls (snd (authenticate d c w))))).
             map fst (secretsAsked seg) = T d (prompt_DisplayName passPrompt) [] # otherLabels d ps))
     \<and> (String c ''p'' \<noteq> '''' \<longrightarrow>
          (\<exists>seg cr later.
             attemptsOf (drop (length (calls w)) (calls (snd (authenticate d c w)))) = (seg, cr) # later
           \<and> map fst (secretsAsked seg) = otherLabels d ps
           \<and> (\<forall>(seg', cr')\<in>set later.
                 map fst (secretsAsked seg') = T d (prompt_DisplayName passPrompt) [] # otherLabels d ps)))"
proof (intro conjI impI)
  from g p obtain cr0 w3 pre where
    s: "snd (authenticate d c w)
       = snd (authenticate_loop d ps (otherSecretKeys ps) 0 (String c ''p'') cr0 None w3)"
    and c: "calls w3 = calls w @ pre"
    and na: "filter isAuthenticate pre = []"
    and ns: "secretsAsked pre = []"
    by (rule authenticate_new_calls)
  {
    assume e: "String c ''p'' = ''''"
    from authenticate_loop_later [OF pp refl, where i = 0 and d = d and cr = cr0 and err = None and w = w3]
    obtain ext where
      l: "calls (snd (authenticate_loop d ps (otherSecretKeys ps) 0 '''' cr0 None w3)) = calls w3 @ ext"
      and later: "\<forall>acc. secretsAsked acc = [] \<longrightarrow>
             (\<forall>x\<in>set (splitAttempts acc ext). passwordFirst d ps passPrompt x)"
      by blast
    have "attemptsOf (drop (length (calls w)) (calls (snd (authenticate d c w)))) = splitAttempts pre ext"
      by (simp add: s e l c attemptsOf_def splitAttempts_no_authenticate [OF na])
    with later [rule_format, OF ns]
    show "\<forall>(seg, cr)\<in>set (attemptsOf (drop (length (calls w)) (calls (snd (authenticate d c w))))).
             map fst (secretsAsked seg) = T d (prompt_DisplayName passPrompt) [] # otherLabels d ps"
      by (auto intro: passwordFirst_order)
  }
  {
    assume pw: "String c ''p'' \<noteq> ''''"
    have "0 < maxLoginTries" by (simp add: maxLoginTries_def)
    from authenticate_loop_first [OF pp pw this, of d cr0 None w3]
    obtain seg cr1 ext where
      l: "calls (snd (authenticate_loop d ps (otherSecretKeys ps) 0 (String c ''p'') cr0 None w3))
             = calls w3 @ seg @ Authenticate cr1 # ext"
      and na': "filter isAuthenticate seg = []"
      and seg: "map fst (secretsAsked seg) = otherLabels d ps"
      and later: "\<forall>x\<in>set (splitAttempts [] ext). passwordFirst d ps passPrompt x"
      by blast
    have new: "drop (length (calls w)) (calls (snd (authenticate d c w)))
         = (pre @ seg) @ Authenticate cr1 # ext"
      by (simp add: s l c)
    have "filter isAuthenticate (pre @ seg) = []"
      using na na' by simp
    then have atts: "attemptsOf (drop (length (calls w)) (calls (snd (authenticate d c w))))
         = (pre @ seg, cr1) # splitAttempts [] ext"
      unfolding new attemptsOf_def by (simp add: splitAttempts_no_authenticate)
    from later
    have "\<forall>(seg', cr')\<in>set (splitAttempts [] ext).
            map fst (secretsAsked seg') = T d (prompt_DisplayName passPrompt) [] # otherLabels d ps"
      by (auto intro: passwordFirst_order)
    with atts seg ns
    show "\<exists>seg cr later.
             attemptsOf (drop (length (calls w)) (calls (snd (authenticate d c w)))) = (seg, cr) # later
           \<and> map fst (secretsAsked seg) = otherLabels d ps
           \<and> (\<forall>(seg', cr')\<in>set later.
                 map fst (secretsAsked seg') = T d (prompt_DisplayName passPrompt) [] # otherLabels d ps)"
      by (intro exI [of _ "pre @ seg"] exI [of _ cr1] exI [of _ "splitAttempts [] ext"]) simp
  }
qed

lemmas login_eval = authenticate_def authenticate_loop.simps authenticate_attempt_def
  GetLoginPromptsAndSaveUAAServerURL_def Authenticate_call_def lookupPrompt_def
  ui_defs Let_def String_def maxLoginTries_def

lemmas login_inputs = envPrompts_def env0_def promptsMFA_def flags_p_def worldRetry_def
  world0_def config0_def

theorem password_override_used_once_witness:
  "map_of promptsMFA ''password''
     = Some \<lparr>prompt_Type = AuthPromptTypePassword, prompt_DisplayName = ''Password''\<rparr>
   \<and> String flags_p ''p'' = ''flag password''
   \<and> map (\<lambda>(seg, cr). (map fst (secretsAsked seg), cr ''password''))
       (attemptsOf (calls (snd (authenticate envPrompts flags_p worldRetry))))
     = [([''MFA Code''], Some ''flag password''),
        ([''Password'', ''MFA Code''], Some ''typed password'')]"
proof -
  have g: "UAAGrantType (config worldRetry) \<noteq> ''client_credentials''"
    by (simp add: worldRetry_def world0_def config0_def)
  have p: "fst (authenticator_GetLoginPrompts envPrompts (config worldRetry)) = Inr promptsMFA"
    by (simp add: envPrompts_def)
  have pp: "map_of promptsMFA ''password''
     = Some \<lparr>prompt_Type = AuthPromptTypePassword, prompt_DisplayName = ''Password''\<rparr>"
    by (simp add: promptsMFA_def)
  have pw: "String flags_p ''p'' \<noteq> ''''"
    by (simp add: flags_p_def String_def)
  from password_override_used_once [OF g p pp pw] pp
  show ?thesis
    by (simp add: login_eval login_inputs attemptsOf_def)
qed

text \<open>
  With a \<open>-p\<close> value the first attempt asks for the second secret only: the password is
  not asked for in that attempt, neither before the other secret nor after it.
\<close>

theorem password_not_asked_with_override:
  "map_of promptsMFA ''password''
     = Some \<lparr>prompt_Type = AuthPromptTypePassword, prompt_DisplayName = ''Password''\<rparr>
   \<and> map (\<lambda>(seg, cr). map fst (secretsAsked seg))
       (attemptsOf (calls (snd (authenticate envPrompts flags_p worldRetry))))
     = [[''MFA Code''], [''Password'', ''MFA Code'']]"
  by (simp add: login_eval login_inputs attemptsOf_def)

theorem password_asked_first_witness:
  "otherLabels envPrompts promptsMFA = [''MFA Code'']
   \<and> map (\<lambda>(seg, cr). map fst (secretsAsked seg))
       (attemptsOf (calls (snd (authenticate envPrompts Map.empty worldRetry))))
     = [[''Password'', ''MFA Code''], [''Password'', ''MFA Code'']]
   \<and> map (\<lambda>(seg, cr). map fst (secretsAsked seg))
       (tl (attemptsOf (calls (snd (authenticate envPrompts flags_p worldRetry)))))
     = [[''Password'', ''MFA Code'']]"
proof -
  have g: "UAAGrantType (config worldRetry) \<noteq> ''client_credentials''"
    by (simp add: worldRetry_def world0_def config0_def)
  have p: "fst (authenticator_GetLoginPrompts envPrompts (config worldRetry)) = Inr promptsMFA"
    by (simp add: envPrompts_def)
  have pp: "map_of promptsMFA ''password''
     = Some \<lparr>prompt_Type = AuthPromptTypePassword, prompt_DisplayName = ''Password''\<rparr>"
    by (simp add: promptsMFA_def)
  from password_asked_first [OF g p pp, of Map.empty] password_asked_first [OF g p pp, of flags_p]
  show ?thesis
    by (simp add: login_eval login_inputs attemptsOf_def otherLabels_def otherSecretKeys_def)
qed

end
